theory Spec2Isabelle
  imports Main "HOL-Library.Char_ord" "HOL-Library.List_Lexorder"
begin

section \<open>JavaScript strings and sets\<close>

text \<open>
  A string is the list of its code units; the model covers text whose code units are
  below 256, one \<^typ>\<open>char\<close> each. \<open>String.prototype.trim\<close> strips white space and
  line terminators from both ends: of the code units below 256 these are TAB, LF, VT, FF,
  CR, SPACE and the no-break space.
\<close>

definition isWhiteSpace :: "char \<Rightarrow> bool" where
  "isWhiteSpace c =
     (c \<in> set [CHR 0x09, CHR 0x0A, CHR 0x0B, CHR 0x0C, CHR 0x0D, CHR 0x20, CHR 0xA0])"

definition trim :: "string \<Rightarrow> string" where
  "trim s = rev (dropWhile isWhiteSpace (rev (dropWhile isWhiteSpace s)))"

text \<open>
  A JavaScript \<open>Set\<close> keeps its members in insertion order; it is modelled by the list
  of its members in that order. \<open>new_Set xs\<close> is \<open>new Set(xs)\<close>, and \<open>Array.from\<close> of
  a set is the list itself.
\<close>

definition set_add :: "'a \<Rightarrow> 'a list \<Rightarrow> 'a list" where
  "set_add x s = (if x \<in> set s then s else s @ [x])"

definition set_delete :: "'a \<Rightarrow> 'a list \<Rightarrow> 'a list" where
  "set_delete x s = filter (\<lambda>y. y \<noteq> x) s"

definition new_Set :: "'a list \<Rightarrow> 'a list" where
  "new_Set xs = fold set_add xs []"

section \<open>The reference parser (src/lib/linking/parser.ts)\<close>

text \<open>
  One attempt of the regular expression \<open>/\[\[([^\]]+)\]\]/\<close> at the start of \<open>s\<close>:
  two opening brackets, the longest non-empty run of code units other than \<open>]\<close>, two
  closing brackets. The character class excludes \<open>]\<close>, so giving back part of the
  greedy run can never make the closing brackets match: the attempt is decided by the
  longest run. The result is the capture group and the text after the match.
\<close>

definition wiki_match :: "string \<Rightarrow> (string \<times> string) option" where
  "wiki_match s =
     (if take 2 s = ''[['' then
        let body = takeWhile (\<lambda>c. c \<noteq> CHR '']'') (drop 2 s);
            after = dropWhile (\<lambda>c. c \<noteq> CHR '']'') (drop 2 s)
        in if body \<noteq> [] \<and> take 2 after = '']]'' then Some (body, drop 2 after) else None
      else None)"

text \<open>
  \<open>content.matchAll(regex)\<close> with the global flag: the capture groups of the successive
  matches, each search resuming where the previous match ended, and one code unit further
  after a failed attempt.
\<close>

function matchAll :: "string \<Rightarrow> string list" where
  "matchAll s =
     (if s = [] then []
      else case wiki_match s of
             Some (body, rest) \<Rightarrow> body # matchAll rest
           | None \<Rightarrow> matchAll (tl s))"
  by pat_completeness auto
termination
proof (relation "measure length")
  show "wf (measure length)" by simp
next
  fix s :: string and x2 body rest
  assume "s \<noteq> []" and m: "wiki_match s = Some x2" and x2: "(body, rest) = x2"
  from m x2 have "rest = drop 2 (dropWhile (\<lambda>c. c \<noteq> CHR '']'') (drop 2 s))"
    by (auto simp: wiki_match_def Let_def split: if_splits)
  moreover have "length (dropWhile (\<lambda>c. c \<noteq> CHR '']'') (drop 2 s)) \<le> length (drop 2 s)"
    by (rule length_dropWhile_le)
  moreover from m have "take 2 s = ''[[''"
    by (auto simp: wiki_match_def split: if_splits)
  then have "length (take 2 s) = 2" by simp
  then have "2 \<le> length s" by simp
  ultimately show "(rest, s) \<in> measure length" by simp
next
  fix s :: string
  assume "s \<noteq> []"
  then show "(tl s, s) \<in> measure length" by (cases s) simp_all
qed

declare matchAll.simps [simp del]

definition parseWikiLinks :: "string \<Rightarrow> string list" where
  "parseWikiLinks content = new_Set (map trim (matchAll content))"

section \<open>The data model (src/lib/db/schema.ts)\<close>

record Note =
  note_id :: string
  title :: string
  content :: string
  contentText :: string
  tags :: "string list"
  createdAt :: nat
  updatedAt :: nat
  linkedNoteIds :: "string list"
  backlinkNoteIds :: "string list"

record Link =
  link_id :: string
  sourceNoteId :: string
  targetNoteId :: string
  targetTitle :: string
  link_createdAt :: nat
  resolved :: bool

text \<open>
  A \<open>Partial<Omit<Note, 'id' | 'createdAt'>>\<close>: every field may be absent. The argument
  of \<open>createNote\<close> has the same shape without \<open>updatedAt\<close>, which \<open>createNote\<close> overwrites.
\<close>

record NotePatch =
  p_title :: "string option"
  p_content :: "string option"
  p_contentText :: "string option"
  p_tags :: "string list option"
  p_updatedAt :: "nat option"
  p_linkedNoteIds :: "string list option"
  p_backlinkNoteIds :: "string list option"

definition no_patch :: NotePatch where
  "no_patch = \<lparr>p_title = None, p_content = None, p_contentText = None, p_tags = None,
     p_updatedAt = None, p_linkedNoteIds = None, p_backlinkNoteIds = None\<rparr>"

text \<open>The object spread \<open>{...n, ...p}\<close>: the fields present in \<open>p\<close> replace those of \<open>n\<close>.\<close>

definition spread :: "Note \<Rightarrow> NotePatch \<Rightarrow> Note" where
  "spread n p =
     n\<lparr>title := (case p_title p of None \<Rightarrow> title n | Some v \<Rightarrow> v),
       content := (case p_content p of None \<Rightarrow> content n | Some v \<Rightarrow> v),
       contentText := (case p_contentText p of None \<Rightarrow> contentText n | Some v \<Rightarrow> v),
       tags := (case p_tags p of None \<Rightarrow> tags n | Some v \<Rightarrow> v),
       updatedAt := (case p_updatedAt p of None \<Rightarrow> updatedAt n | Some v \<Rightarrow> v),
       linkedNoteIds := (case p_linkedNoteIds p of None \<Rightarrow> linkedNoteIds n | Some v \<Rightarrow> v),
       backlinkNoteIds :=
         (case p_backlinkNoteIds p of None \<Rightarrow> backlinkNoteIds n | Some v \<Rightarrow> v)\<rparr>"

definition extractPlainText :: "string \<Rightarrow> string" where
  "extractPlainText c = trim c"

definition generateTitleFromContent :: "string \<Rightarrow> string" where
  "generateTitleFromContent c =
     (if c = [] \<or> trim c = [] then ''Untitled Note''
      else let firstLine = trim (takeWhile (\<lambda>x. x \<noteq> CHR 0x0A) c)
           in if length firstLine > 0
              then (if length firstLine > 100 then take 100 firstLine @ ''...'' else firstLine)
              else ''Untitled Note'')"

section \<open>The store (src/lib/db/index.ts)\<close>

text \<open>
  The Dexie tables \<open>notes\<close> and \<open>links\<close>, each the list of its rows in primary-key order
  (the order in which a table scan yields them). \<open>writes\<close> records the write operations
  issued so far. \<open>uuidv4()\<close> and \<open>Date.now()\<close> are inputs of the model: \<open>tick\<close> counts the
  draws made so far, and the environment gives the values drawn at each tick.
  The \<open>tags\<close> table is touched by none of the operations modelled here.
\<close>

datatype write_op =
  NotesAdd string | NotesUpdate string | NotesDelete string | LinksAdd string | LinksDelete

record KnowledgeDB =
  notes_table :: "Note list"
  links_table :: "Link list"
  writes :: "write_op list"
  tick :: nat

record env =
  uuidv4 :: "nat \<Rightarrow> string"
  date_now :: "nat \<Rightarrow> nat"

datatype error = ConstraintError

text \<open>
  A rejected promise: the error together with the store as the failed call leaves it
  (the operations are not wrapped in a transaction, so the earlier writes stay).
\<close>

type_synonym 'a result = "(error \<times> KnowledgeDB) + 'a"

definition notes_get :: "string \<Rightarrow> KnowledgeDB \<Rightarrow> Note option" where
  "notes_get i db = find (\<lambda>n. note_id n = i) (notes_table db)"

definition notes_update :: "string \<Rightarrow> (Note \<Rightarrow> Note) \<Rightarrow> KnowledgeDB \<Rightarrow> KnowledgeDB" where
  "notes_update i f db =
     db\<lparr>notes_table := map (\<lambda>n. if note_id n = i then f n else n) (notes_table db),
        writes := writes db @ [NotesUpdate i]\<rparr>"

text \<open>\<open>Table.add\<close> rejects with a ConstraintError when the primary key is taken.\<close>

definition notes_add :: "Note \<Rightarrow> KnowledgeDB \<Rightarrow> KnowledgeDB result" where
  "notes_add n db =
     (if note_id n \<in> set (map note_id (notes_table db)) then Inl (ConstraintError, db)
      else Inr (db\<lparr>notes_table := insort_key note_id n (notes_table db),
                   writes := writes db @ [NotesAdd (note_id n)]\<rparr>))"

definition notes_delete :: "string \<Rightarrow> KnowledgeDB \<Rightarrow> KnowledgeDB" where
  "notes_delete i db =
     db\<lparr>notes_table := filter (\<lambda>n. note_id n \<noteq> i) (notes_table db),
        writes := writes db @ [NotesDelete i]\<rparr>"

definition links_add :: "Link \<Rightarrow> KnowledgeDB \<Rightarrow> KnowledgeDB result" where
  "links_add l db =
     (if link_id l \<in> set (map link_id (links_table db)) then Inl (ConstraintError, db)
      else Inr (db\<lparr>links_table := insort_key link_id l (links_table db),
                   writes := writes db @ [LinksAdd (link_id l)]\<rparr>))"

text \<open>\<open>db.links.where(...).and(...).delete()\<close>: every row that satisfies the query goes.\<close>

definition links_delete :: "(Link \<Rightarrow> bool) \<Rightarrow> KnowledgeDB \<Rightarrow> KnowledgeDB" where
  "links_delete q db =
     db\<lparr>links_table := filter (\<lambda>l. \<not> q l) (links_table db), writes := writes db @ [LinksDelete]\<rparr>"

definition draw :: "KnowledgeDB \<Rightarrow> KnowledgeDB" where
  "draw db = db\<lparr>tick := Suc (tick db)\<rparr>"

section \<open>Content commit: updateNoteLinks (src/lib/linking/parser.ts)\<close>

text \<open>The loop over \<open>addedLinks\<close> (lines 83 to 103).\<close>

fun addBacklinks :: "env \<Rightarrow> string \<Rightarrow> string list \<Rightarrow> KnowledgeDB \<Rightarrow> KnowledgeDB result" where
  "addBacklinks E noteId [] db = Inr db"
| "addBacklinks E noteId (linkedNoteId # rest) db =
     (case notes_get linkedNoteId db of
        None \<Rightarrow> addBacklinks E noteId rest db
      | Some linkedNote \<Rightarrow>
          let backlinks = set_add noteId (new_Set (backlinkNoteIds linkedNote));
              db1 = notes_update linkedNoteId (\<lambda>n. n\<lparr>backlinkNoteIds := backlinks\<rparr>) db
          in (case links_add
                     \<lparr>link_id = uuidv4 E (tick db1), sourceNoteId = noteId,
                      targetNoteId = linkedNoteId, targetTitle = title linkedNote,
                      link_createdAt = date_now E (tick db1), resolved = True\<rparr>
                     (draw db1) of
                Inl e \<Rightarrow> Inl e
              | Inr db2 \<Rightarrow> addBacklinks E noteId rest db2))"

text \<open>The loop over \<open>removedLinks\<close> (lines 106 to 123).\<close>

fun removeBacklinks :: "string \<Rightarrow> string list \<Rightarrow> KnowledgeDB \<Rightarrow> KnowledgeDB" where
  "removeBacklinks noteId [] db = db"
| "removeBacklinks noteId (unlinkedNoteId # rest) db =
     (case notes_get unlinkedNoteId db of
        None \<Rightarrow> removeBacklinks noteId rest db
      | Some unlinkedNote \<Rightarrow>
          let backlinks = set_delete noteId (new_Set (backlinkNoteIds unlinkedNote));
              db1 = notes_update unlinkedNoteId (\<lambda>n. n\<lparr>backlinkNoteIds := backlinks\<rparr>) db;
              db2 = links_delete
                      (\<lambda>l. sourceNoteId l = noteId \<and> targetNoteId l = unlinkedNoteId) db1
          in removeBacklinks noteId rest db2)"

text \<open>The loop over \<open>unresolvedTitles\<close> (lines 130 to 148).\<close>

fun addUnresolved :: "env \<Rightarrow> string \<Rightarrow> string list \<Rightarrow> KnowledgeDB \<Rightarrow> KnowledgeDB result" where
  "addUnresolved E noteId [] db = Inr db"
| "addUnresolved E noteId (t # rest) db =
     (case find (\<lambda>l. sourceNoteId l = noteId \<and> targetTitle l = t \<and> \<not> resolved l) (links_table db) of
        Some existingLink \<Rightarrow> addUnresolved E noteId rest db
      | None \<Rightarrow>
          (case links_add
                  \<lparr>link_id = uuidv4 E (tick db), sourceNoteId = noteId, targetNoteId = [],
                   targetTitle = t, link_createdAt = date_now E (tick db), resolved = False\<rparr>
                  (draw db) of
             Inl e \<Rightarrow> Inl e
           | Inr db1 \<Rightarrow> addUnresolved E noteId rest db1))"

definition updateNoteLinks :: "env \<Rightarrow> string \<Rightarrow> string \<Rightarrow> KnowledgeDB \<Rightarrow> KnowledgeDB result" where
  "updateNoteLinks E noteId c db =
     (let linkedTitles = parseWikiLinks c
      in case notes_get noteId db of
           None \<Rightarrow> Inr db
         | Some currentNote \<Rightarrow>
             let linkedNotes = filter (\<lambda>n. title n \<in> set linkedTitles) (notes_table db);
                 newLinkedNoteIds = map note_id linkedNotes;
                 oldLinkedNoteIds = linkedNoteIds currentNote;
                 db1 = notes_update noteId (\<lambda>n. n\<lparr>linkedNoteIds := newLinkedNoteIds\<rparr>) db;
                 addedLinks = filter (\<lambda>i. i \<notin> set oldLinkedNoteIds) newLinkedNoteIds;
                 removedLinks = filter (\<lambda>i. i \<notin> set newLinkedNoteIds) oldLinkedNoteIds
             in (case addBacklinks E noteId addedLinks db1 of
                   Inl e \<Rightarrow> Inl e
                 | Inr db2 \<Rightarrow>
                     let db3 = removeBacklinks noteId removedLinks db2;
                         unresolvedTitles =
                           filter (\<lambda>t. \<not> list_ex (\<lambda>n. title n = t) linkedNotes) linkedTitles
                     in addUnresolved E noteId unresolvedTitles db3))"

section \<open>Note operations (src/lib/db/operations.ts)\<close>

definition createEmptyNote :: NotePatch where
  "createEmptyNote = \<lparr>p_title = Some ''Untitled Note'', p_content = Some [],
     p_contentText = Some [], p_tags = Some [], p_updatedAt = None,
     p_linkedNoteIds = Some [], p_backlinkNoteIds = Some []\<rparr>"

definition createNote :: "env \<Rightarrow> NotePatch \<Rightarrow> KnowledgeDB \<Rightarrow> (Note \<times> KnowledgeDB) result" where
  "createNote E data db =
     (let now = date_now E (tick db);
          blank = \<lparr>note_id = uuidv4 E (tick db), title = [], content = [], contentText = [],
                   tags = [], createdAt = now, updatedAt = now, linkedNoteIds = [],
                   backlinkNoteIds = []\<rparr>;
          note0 = (spread (spread blank createEmptyNote) data)\<lparr>createdAt := now, updatedAt := now\<rparr>;
          note1 = (if (p_title data = None \<or> p_title data = Some []) \<and> content note0 \<noteq> []
                   then note0\<lparr>title := generateTitleFromContent (content note0)\<rparr> else note0);
          note2 = note1\<lparr>contentText := extractPlainText (content note1)\<rparr>
      in (case notes_add note2 (draw db) of
            Inl e \<Rightarrow> Inl e
          | Inr db1 \<Rightarrow> Inr (note2, db1)))"

definition endsWith :: "string \<Rightarrow> string \<Rightarrow> bool" where
  "endsWith s suffix = (length suffix \<le> length s \<and> drop (length s - length suffix) s = suffix)"

definition updateNote :: "env \<Rightarrow> string \<Rightarrow> NotePatch \<Rightarrow> KnowledgeDB \<Rightarrow> KnowledgeDB" where
  "updateNote E i updates db =
     (let now = date_now E (tick db);
          fu0 = updates\<lparr>p_updatedAt := Some now\<rparr>;
          finalUpdates =
            (case p_content updates of
               None \<Rightarrow> fu0
             | Some c \<Rightarrow>
                 let fu1 = fu0\<lparr>p_contentText := Some (extractPlainText c)\<rparr>
                 in if p_title updates = None \<or> p_title updates = Some [] then
                      (case notes_get i db of
                         None \<Rightarrow> fu1
                       | Some existingNote \<Rightarrow>
                           if title existingNote = ''Untitled Note''
                              \<or> endsWith (title existingNote) ''...''
                           then fu1\<lparr>p_title := Some (generateTitleFromContent c)\<rparr>
                           else fu1)
                    else fu1)
      in notes_update i (\<lambda>n. spread n finalUpdates) (draw db))"

text \<open>The two loops of \<open>deleteNote\<close> (lines 106 to 116 and 119 to 129).\<close>

fun dropBacklinks :: "string \<Rightarrow> string list \<Rightarrow> KnowledgeDB \<Rightarrow> KnowledgeDB" where
  "dropBacklinks i [] db = db"
| "dropBacklinks i (linkedNoteId # rest) db =
     (case notes_get linkedNoteId db of
        None \<Rightarrow> dropBacklinks i rest db
      | Some linkedNote \<Rightarrow>
          let updatedBacklinks = filter (\<lambda>backlink. backlink \<noteq> i) (backlinkNoteIds linkedNote)
          in dropBacklinks i rest
               (notes_update linkedNoteId (\<lambda>n. n\<lparr>backlinkNoteIds := updatedBacklinks\<rparr>) db))"

fun dropLinks :: "string \<Rightarrow> string list \<Rightarrow> KnowledgeDB \<Rightarrow> KnowledgeDB" where
  "dropLinks i [] db = db"
| "dropLinks i (backlinkNoteId # rest) db =
     (case notes_get backlinkNoteId db of
        None \<Rightarrow> dropLinks i rest db
      | Some backlinkNote \<Rightarrow>
          let updatedLinks = filter (\<lambda>link. link \<noteq> i) (linkedNoteIds backlinkNote)
          in dropLinks i rest
               (notes_update backlinkNoteId (\<lambda>n. n\<lparr>linkedNoteIds := updatedLinks\<rparr>) db))"

definition deleteNote :: "string \<Rightarrow> KnowledgeDB \<Rightarrow> KnowledgeDB" where
  "deleteNote i db =
     (case notes_get i db of
        None \<Rightarrow> db
      | Some note \<Rightarrow>
          let db1 = dropBacklinks i (linkedNoteIds note) db;
              db2 = dropLinks i (backlinkNoteIds note) db1;
              db3 = links_delete (\<lambda>l. sourceNoteId l = i) db2;
              db4 = links_delete (\<lambda>l. targetNoteId l = i) db3
          in notes_delete i db4)"

section \<open>Properties of the store\<close>

text \<open>The primary key of the notes table: no two rows share an id.\<close>

definition primary_keys :: "KnowledgeDB \<Rightarrow> bool" where
  "primary_keys db = distinct (map note_id (notes_table db))"

text \<open>
  Symmetry of the two adjacency views: for notes \<open>a\<close> and \<open>b\<close> of the store, \<open>b\<close> is in
  the outgoing list of \<open>a\<close> exactly when \<open>a\<close> is in the incoming list of \<open>b\<close>.
\<close>

definition symmetric :: "KnowledgeDB \<Rightarrow> bool" where
  "symmetric db =
     (\<forall>a \<in> set (notes_table db). \<forall>b \<in> set (notes_table db).
        (note_id b \<in> set (linkedNoteIds a)) = (note_id a \<in> set (backlinkNoteIds b)))"

text \<open>At most one row for each pair of source id and target title.\<close>

definition link_key :: "Link \<Rightarrow> string \<times> string" where
  "link_key l = (sourceNoteId l, targetTitle l)"

definition one_row_per_pair :: "Link list \<Rightarrow> bool" where
  "one_row_per_pair ls = distinct (map link_key ls)"

definition unresolved_rows :: "KnowledgeDB \<Rightarrow> Link list" where
  "unresolved_rows db = filter (\<lambda>l. \<not> resolved l) (links_table db)"






section \<open>Example stores\<close>

definition env0 :: env where
  "env0 = \<lparr>uuidv4 = (\<lambda>k. ''link-'' @ replicate k CHR ''x''), date_now = (\<lambda>k. 1000 + k)\<rparr>"

definition mkNote :: "string \<Rightarrow> string \<Rightarrow> string list \<Rightarrow> string list \<Rightarrow> Note" where
  "mkNote i t out inc =
     \<lparr>note_id = i, title = t, content = [], contentText = [], tags = [], createdAt = 1,
      updatedAt = 1, linkedNoteIds = out, backlinkNoteIds = inc\<rparr>"

text \<open>Two notes titled Dup and a third note, no links yet.\<close>

definition db_dup :: KnowledgeDB where
  "db_dup =
     \<lparr>notes_table = [mkNote ''c'' ''C'' [] [], mkNote ''d1'' ''Dup'' [] [],
                      mkNote ''d2'' ''Dup'' [] []],
      links_table = [], writes = [], tick = 0\<rparr>"

text \<open>Note a has referenced X, which does not exist: one unresolved row. Note n is unrelated.\<close>

definition db_placeholder :: KnowledgeDB where
  "db_placeholder =
     \<lparr>notes_table = [mkNote ''a'' ''A'' [] [], mkNote ''n'' ''N'' [] []],
      links_table =
        [\<lparr>link_id = ''l0'', sourceNoteId = ''a'', targetNoteId = [], targetTitle = ''X'',
          link_createdAt = 5, resolved = False\<rparr>],
      writes = [], tick = 0\<rparr>"

text \<open>Note a links to note b, with the resolved row; c is a third note.\<close>

definition db_linked :: KnowledgeDB where
  "db_linked =
     \<lparr>notes_table = [mkNote ''a'' ''A'' [''b''] [], mkNote ''b'' ''B'' [] [''a''],
                      mkNote ''c'' ''C'' [] []],
      links_table =
        [\<lparr>link_id = ''l0'', sourceNoteId = ''a'', targetNoteId = ''b'', targetTitle = ''B'',
          link_createdAt = 5, resolved = True\<rparr>],
      writes = [], tick = 0\<rparr>"

section \<open>The effect of the operations on one row\<close>

text \<open>
  What the loops of \<open>updateNoteLinks\<close> and \<open>deleteNote\<close> do to a single row of the notes
  table; the lemmas below show that each loop maps these over the table.
\<close>

definition add_backlink :: "string \<Rightarrow> Note \<Rightarrow> Note" where
  "add_backlink x n = n\<lparr>backlinkNoteIds := set_add x (new_Set (backlinkNoteIds n))\<rparr>"

definition del_backlink :: "string \<Rightarrow> Note \<Rightarrow> Note" where
  "del_backlink x n = n\<lparr>backlinkNoteIds := set_delete x (new_Set (backlinkNoteIds n))\<rparr>"

definition matching_ids :: "string \<Rightarrow> KnowledgeDB \<Rightarrow> string list" where
  "matching_ids c db =
     map note_id (filter (\<lambda>n. title n \<in> set (parseWikiLinks c)) (notes_table db))"

definition relink :: "string \<Rightarrow> string list \<Rightarrow> string list \<Rightarrow> Note \<Rightarrow> Note" where
  "relink x old new n =
     (let n1 = (if note_id n = x then n\<lparr>linkedNoteIds := new\<rparr> else n);
          n2 = (if note_id n1 \<in> set new - set old then add_backlink x n1 else n1)
      in if note_id n2 \<in> set old - set new then del_backlink x n2 else n2)"

definition strip_incoming :: "string \<Rightarrow> Note \<Rightarrow> Note" where
  "strip_incoming i n = n\<lparr>backlinkNoteIds := filter (\<lambda>k. k \<noteq> i) (backlinkNoteIds n)\<rparr>"

definition strip_outgoing :: "string \<Rightarrow> Note \<Rightarrow> Note" where
  "strip_outgoing i n = n\<lparr>linkedNoteIds := filter (\<lambda>k. k \<noteq> i) (linkedNoteIds n)\<rparr>"

definition unlink :: "string \<Rightarrow> Note \<Rightarrow> Note \<Rightarrow> Note" where
  "unlink i gone n =
     (let n1 = (if note_id n \<in> set (linkedNoteIds gone) then strip_incoming i n else n)
      in if note_id n1 \<in> set (backlinkNoteIds gone) then strip_outgoing i n1 else n1)"

text \<open>
  The titles for which \<open>updateNoteLinks\<close> looks for a placeholder row, the test it makes
  for each, and the condition under which every \<open>Table.add\<close> of a content commit finds
  its key free: the ids still to be drawn differ from each other and from the ids in the
  links table.
\<close>

definition unresolved_titles :: "string \<Rightarrow> KnowledgeDB \<Rightarrow> string list" where
  "unresolved_titles c db =
     filter (\<lambda>t. \<not> list_ex (\<lambda>n. title n = t)
                     (filter (\<lambda>n. title n \<in> set (parseWikiLinks c)) (notes_table db)))
       (parseWikiLinks c)"

definition has_placeholder :: "string \<Rightarrow> string \<Rightarrow> KnowledgeDB \<Rightarrow> bool" where
  "has_placeholder x t db =
     (\<exists>l \<in> set (links_table db). sourceNoteId l = x \<and> targetTitle l = t \<and> \<not> resolved l)"

definition fresh_uuids :: "env \<Rightarrow> KnowledgeDB \<Rightarrow> bool" where
  "fresh_uuids E db =
     ((\<forall>k \<ge> tick db. uuidv4 E k \<notin> link_id ` set (links_table db))
      \<and> inj_on (uuidv4 E) {tick db..})"

section \<open>The parser\<close>

subsection \<open>Sets as lists\<close>

lemma set_set_add: "set (set_add x s) = insert x (set s)"
  by (auto simp: set_add_def)

lemma distinct_set_add: "distinct s \<Longrightarrow> distinct (set_add x s)"
  by (simp add: set_add_def)

lemma set_set_delete: "set (set_delete x s) = set s - {x}"
  by (auto simp: set_delete_def)

lemma new_Set_snoc: "new_Set (xs @ [x]) = set_add x (new_Set xs)"
  by (simp add: new_Set_def)

lemma set_new_Set: "set (new_Set xs) = set xs"
  by (induction xs rule: rev_induct) (simp_all add: new_Set_snoc set_set_add, simp add: new_Set_def)

lemma distinct_new_Set: "distinct (new_Set xs)"
  by (induction xs rule: rev_induct) (simp_all add: new_Set_snoc distinct_set_add, simp add: new_Set_def)



subsection \<open>trim\<close>



subsection \<open>matchAll\<close>

















section \<open>Content commit on an unknown note\<close>

text \<open>
  Claim C10. A content commit for an id that has no note in the store returns at once
  and leaves the whole store as it was: no note is changed, no Link row is created or
  deleted and no write is issued, whatever the body text.
\<close>

theorem updateNoteLinks_unknown_note:
  "notes_get noteId db = None \<Longrightarrow> updateNoteLinks E noteId c db = Inr db"
  by (simp add: updateNoteLinks_def)

theorem updateNoteLinks_unknown_note_witness:
  "notes_get ''zz'' db_linked = None
   \<and> updateNoteLinks env0 ''zz'' ''see [[B]] and [[X]]'' db_linked = Inr db_linked"
proof -
  have h: "notes_get ''zz'' db_linked = None" by code_simp
  from h updateNoteLinks_unknown_note [OF h] show ?thesis by simp
qed

section \<open>The notes table under the operations\<close>

subsection \<open>Table access\<close>

lemma notes_get_Some: "notes_get i db = Some n \<Longrightarrow> n \<in> set (notes_table db) \<and> note_id n = i"
  by (auto simp: notes_get_def find_Some_iff)

lemma notes_get_None: "(notes_get i db = None) = (i \<notin> note_id ` set (notes_table db))"
  by (auto simp: notes_get_def find_None_iff)

lemma notes_get_unique:
  assumes "primary_keys db" and "notes_get i db = Some m"
    and "n \<in> set (notes_table db)" and "note_id n = i"
  shows "n = m"
proof -
  from assms(1) have "inj_on note_id (set (notes_table db))"
    by (simp add: primary_keys_def distinct_map)
  moreover from assms(2) have "m \<in> set (notes_table db)" "note_id m = i"
    by (simp_all add: notes_get_Some)
  ultimately show ?thesis using assms(3,4) by (auto dest: inj_onD)
qed

lemma notes_update_row:
  assumes "primary_keys db" and "notes_get i db = Some m"
  shows "notes_table (notes_update i (\<lambda>n. g m n) db)
       = map (\<lambda>n. if note_id n = i then g n n else n) (notes_table db)"
  unfolding notes_update_def using notes_get_unique [OF assms] by (auto intro: map_cong)

lemma notes_update_fields [simp]:
  "links_table (notes_update i f db) = links_table db"
  "tick (notes_update i f db) = tick db"
  "writes (notes_update i f db) = writes db @ [NotesUpdate i]"
  by (simp_all add: notes_update_def)

lemma links_delete_fields [simp]:
  "notes_table (links_delete q db) = notes_table db"
  "links_table (links_delete q db) = filter (\<lambda>l. \<not> q l) (links_table db)"
  "tick (links_delete q db) = tick db"
  by (simp_all add: links_delete_def)

lemma draw_fields [simp]:
  "notes_table (draw db) = notes_table db"
  "links_table (draw db) = links_table db"
  "writes (draw db) = writes db"
  "tick (draw db) = Suc (tick db)"
  by (simp_all add: draw_def)

lemma links_add_Inr:
  "links_add l db = Inr db' \<Longrightarrow>
     notes_table db' = notes_table db \<and> links_table db' = insort_key link_id l (links_table db)
     \<and> tick db' = tick db \<and> link_id l \<notin> link_id ` set (links_table db)"
  by (auto simp: links_add_def split: if_splits)

lemma primary_keys_cong:
  "map note_id (notes_table db') = map note_id (notes_table db) \<Longrightarrow>
     primary_keys db' = primary_keys db"
  by (simp add: primary_keys_def)

lemma note_id_add_backlink [simp]: "note_id (add_backlink x n) = note_id n"
  by (simp add: add_backlink_def)

lemma note_id_del_backlink [simp]: "note_id (del_backlink x n) = note_id n"
  by (simp add: del_backlink_def)

lemma new_Set_distinct_id: "distinct xs \<Longrightarrow> new_Set xs = xs"
proof (induction xs rule: rev_induct)
  case Nil show ?case by (simp add: new_Set_def)
next
  case (snoc x xs)
  then show ?case by (simp add: new_Set_snoc set_add_def)
qed

lemma add_backlink_idem [simp]: "add_backlink x (add_backlink x n) = add_backlink x n"
proof -
  have d: "distinct (set_add x (new_Set (backlinkNoteIds n)))"
    by (simp add: distinct_set_add distinct_new_Set)
  have "set_add x (new_Set (set_add x (new_Set (backlinkNoteIds n))))
      = set_add x (new_Set (backlinkNoteIds n))"
    by (simp add: new_Set_distinct_id [OF d]) (simp add: set_add_def)
  then show ?thesis by (simp add: add_backlink_def)
qed

lemma del_backlink_idem [simp]: "del_backlink x (del_backlink x n) = del_backlink x n"
proof -
  have d: "distinct (set_delete x (new_Set (backlinkNoteIds n)))"
    by (simp add: set_delete_def distinct_new_Set)
  have "set_delete x (new_Set (set_delete x (new_Set (backlinkNoteIds n))))
      = set_delete x (new_Set (backlinkNoteIds n))"
    by (simp add: new_Set_distinct_id [OF d]) (simp add: set_delete_def)
  then show ?thesis by (simp add: del_backlink_def)
qed

subsection \<open>The loops of updateNoteLinks\<close>

lemma addBacklinks_notes:
  "primary_keys db \<Longrightarrow> addBacklinks E x ids db = Inr db' \<Longrightarrow>
     notes_table db' =
       map (\<lambda>n. if note_id n \<in> set ids then add_backlink x n else n) (notes_table db)"
proof (induction ids arbitrary: db)
  case Nil
  then show ?case by simp
next
  case (Cons i ids)
  show ?case
  proof (cases "notes_get i db")
    case None
    then have "\<And>n. n \<in> set (notes_table db) \<Longrightarrow> note_id n \<noteq> i"
      by (auto simp: notes_get_None)
    then have "map (\<lambda>n. if note_id n \<in> set (i # ids) then add_backlink x n else n) (notes_table db)
             = map (\<lambda>n. if note_id n \<in> set ids then add_backlink x n else n) (notes_table db)"
      by (intro map_cong) auto
    moreover from None Cons.prems have "addBacklinks E x ids db = Inr db'" by simp
    ultimately show ?thesis using Cons.IH [OF Cons.prems(1)] by simp
  next
    case (Some m)
    define db1 where
      "db1 = notes_update i (\<lambda>n. n\<lparr>backlinkNoteIds := set_add x (new_Set (backlinkNoteIds m))\<rparr>) db"
    have t1: "notes_table db1 = map (\<lambda>n. if note_id n = i then add_backlink x n else n) (notes_table db)"
      unfolding db1_def add_backlink_def
      using notes_update_row [OF Cons.prems(1) Some,
          of "\<lambda>m n. n\<lparr>backlinkNoteIds := set_add x (new_Set (backlinkNoteIds m))\<rparr>"] .
    from Some Cons.prems(2) obtain db2 where
      a: "links_add \<lparr>link_id = uuidv4 E (tick db1), sourceNoteId = x, targetNoteId = i,
            targetTitle = title m, link_createdAt = date_now E (tick db1), resolved = True\<rparr>
            (draw db1) = Inr db2"
      and r: "addBacklinks E x ids db2 = Inr db'"
      by (auto simp: Let_def db1_def split: sum.splits)
    from links_add_Inr [OF a] have t2: "notes_table db2 = notes_table db1" by simp
    have "map note_id (notes_table db2) = map note_id (notes_table db)"
      by (simp add: t2 t1 comp_def)
    from primary_keys_cong [OF this] Cons.prems(1) have "primary_keys db2" by simp
    from Cons.IH [OF this r] have "notes_table db' =
       map (\<lambda>n. if note_id n \<in> set ids then add_backlink x n else n) (notes_table db2)" .
    also have "\<dots> = map (\<lambda>n. if note_id n \<in> set (i # ids) then add_backlink x n else n) (notes_table db)"
      by (auto simp: t2 t1)
    finally show ?thesis .
  qed
qed

lemma removeBacklinks_notes:
  "primary_keys db \<Longrightarrow>
     notes_table (removeBacklinks x ids db) =
       map (\<lambda>n. if note_id n \<in> set ids then del_backlink x n else n) (notes_table db)"
proof (induction ids arbitrary: db)
  case Nil
  then show ?case by simp
next
  case (Cons i ids)
  show ?case
  proof (cases "notes_get i db")
    case None
    then have "\<And>n. n \<in> set (notes_table db) \<Longrightarrow> note_id n \<noteq> i"
      by (auto simp: notes_get_None)
    then have "map (\<lambda>n. if note_id n \<in> set (i # ids) then del_backlink x n else n) (notes_table db)
             = map (\<lambda>n. if note_id n \<in> set ids then del_backlink x n else n) (notes_table db)"
      by (intro map_cong) auto
    then show ?thesis using None Cons.IH [OF Cons.prems(1)] by simp
  next
    case (Some m)
    define db1 where
      "db1 = notes_update i (\<lambda>n. n\<lparr>backlinkNoteIds := set_delete x (new_Set (backlinkNoteIds m))\<rparr>) db"
    define db2 where
      "db2 = links_delete (\<lambda>l. sourceNoteId l = x \<and> targetNoteId l = i) db1"
    have t1: "notes_table db1 = map (\<lambda>n. if note_id n = i then del_backlink x n else n) (notes_table db)"
      unfolding db1_def del_backlink_def
      using notes_update_row [OF Cons.prems(1) Some,
          of "\<lambda>m n. n\<lparr>backlinkNoteIds := set_delete x (new_Set (backlinkNoteIds m))\<rparr>"] .
    have t2: "notes_table db2 = notes_table db1" by (simp add: db2_def)
    have "map note_id (notes_table db2) = map note_id (notes_table db)"
      by (simp add: t2 t1 comp_def)
    from primary_keys_cong [OF this] Cons.prems(1) have "primary_keys db2" by simp
    from Cons.IH [OF this] have "notes_table (removeBacklinks x ids db2) =
       map (\<lambda>n. if note_id n \<in> set ids then del_backlink x n else n) (notes_table db2)" .
    also have "\<dots> = map (\<lambda>n. if note_id n \<in> set (i # ids) then del_backlink x n else n) (notes_table db)"
      by (auto simp: t2 t1)
    finally show ?thesis using Some by (simp add: Let_def db1_def db2_def)
  qed
qed

lemma addUnresolved_notes:
  "addUnresolved E x ts db = Inr db' \<Longrightarrow> notes_table db' = notes_table db"
proof (induction ts arbitrary: db)
  case Nil
  then show ?case by simp
next
  case (Cons t ts)
  then show ?case
    by (auto split: option.splits sum.splits dest!: links_add_Inr)
qed

lemma updateNoteLinks_notes:
  assumes pk: "primary_keys db" and cur: "notes_get x db = Some cur"
    and run: "updateNoteLinks E x c db = Inr db'"
  shows "notes_table db' =
           map (relink x (linkedNoteIds cur) (matching_ids c db)) (notes_table db)"
proof -
  let ?new = "matching_ids c db" and ?old = "linkedNoteIds cur"
  let ?added = "filter (\<lambda>i. i \<notin> set ?old) ?new"
  let ?removed = "filter (\<lambda>i. i \<notin> set ?new) ?old"
  define db1 where "db1 = notes_update x (\<lambda>n. n\<lparr>linkedNoteIds := ?new\<rparr>) db"
  from run cur obtain db2 where
    a: "addBacklinks E x ?added db1 = Inr db2"
    and u: "addUnresolved E x
              (filter (\<lambda>t. \<not> list_ex (\<lambda>n. title n = t)
                               (filter (\<lambda>n. title n \<in> set (parseWikiLinks c)) (notes_table db)))
                 (parseWikiLinks c))
              (removeBacklinks x ?removed db2) = Inr db'"
    by (auto simp: updateNoteLinks_def Let_def db1_def matching_ids_def split: sum.splits)
  have t1: "notes_table db1 = map (\<lambda>n. if note_id n = x then n\<lparr>linkedNoteIds := ?new\<rparr> else n) (notes_table db)"
    by (simp add: db1_def notes_update_def)
  then have "map note_id (notes_table db1) = map note_id (notes_table db)"
    by (simp add: comp_def)
  from primary_keys_cong [OF this] pk have pk1: "primary_keys db1" by simp
  have t2: "notes_table db2 = map (\<lambda>n. if note_id n \<in> set ?added then add_backlink x n else n) (notes_table db1)"
    using addBacklinks_notes [OF pk1 a] .
  then have "map note_id (notes_table db2) = map note_id (notes_table db1)"
    by (simp add: comp_def)
  from primary_keys_cong [OF this] pk1 have pk2: "primary_keys db2" by simp
  have t3: "notes_table (removeBacklinks x ?removed db2)
          = map (\<lambda>n. if note_id n \<in> set ?removed then del_backlink x n else n) (notes_table db2)"
    using removeBacklinks_notes [OF pk2] .
  have "notes_table db' = notes_table (removeBacklinks x ?removed db2)"
    using addUnresolved_notes [OF u] .
  also have "\<dots> = map (relink x ?old ?new) (notes_table db)"
    unfolding t3 t2 t1 by (auto simp: relink_def Let_def)
  finally show ?thesis .
qed

lemma relink_fields:
  "note_id (relink x old new n) = note_id n"
  "title (relink x old new n) = title n"
  "linkedNoteIds (relink x old new n) = (if note_id n = x then new else linkedNoteIds n)"
  "set (backlinkNoteIds (relink x old new n)) =
     (if note_id n \<in> set new - set old then insert x (set (backlinkNoteIds n))
      else if note_id n \<in> set old - set new then set (backlinkNoteIds n) - {x}
      else set (backlinkNoteIds n))"
  by (auto simp: relink_def Let_def add_backlink_def del_backlink_def set_set_add
      set_set_delete set_new_Set)

lemma updateNoteLinks_symmetric:
  assumes pk: "primary_keys db" and sym: "symmetric db"
    and run: "updateNoteLinks E x c db = Inr db'"
  shows "symmetric db'"
proof (cases "notes_get x db")
  case None
  with run have "db' = db" by (simp add: updateNoteLinks_def)
  with sym show ?thesis by simp
next
  case (Some cur)
  let ?new = "matching_ids c db" and ?old = "linkedNoteIds cur"
  have t: "notes_table db' = map (relink x ?old ?new) (notes_table db)"
    using updateNoteLinks_notes [OF pk Some run] .
  have "(note_id (relink x ?old ?new b) \<in> set (linkedNoteIds (relink x ?old ?new a)))
      = (note_id (relink x ?old ?new a) \<in> set (backlinkNoteIds (relink x ?old ?new b)))"
    if a: "a \<in> set (notes_table db)" and b: "b \<in> set (notes_table db)" for a b
  proof -
    from sym a b have s: "(note_id b \<in> set (linkedNoteIds a)) = (note_id a \<in> set (backlinkNoteIds b))"
      by (simp add: symmetric_def)
    show ?thesis
    proof (cases "note_id a = x")
      case True
      with notes_get_unique [OF pk Some a] have "a = cur" by simp
      with s True show ?thesis by (auto simp: relink_fields)
    next
      case False
      with s show ?thesis by (auto simp: relink_fields)
    qed
  qed
  then show ?thesis unfolding symmetric_def t by auto
qed

lemma dropBacklinks_notes:
  "primary_keys db \<Longrightarrow>
     notes_table (dropBacklinks i ids db) =
       map (\<lambda>n. if note_id n \<in> set ids then strip_incoming i n else n) (notes_table db)"
proof (induction ids arbitrary: db)
  case Nil
  then show ?case by simp
next
  case (Cons k ids)
  show ?case
  proof (cases "notes_get k db")
    case None
    then have "\<And>n. n \<in> set (notes_table db) \<Longrightarrow> note_id n \<noteq> k"
      by (auto simp: notes_get_None)
    then have "map (\<lambda>n. if note_id n \<in> set (k # ids) then strip_incoming i n else n) (notes_table db)
             = map (\<lambda>n. if note_id n \<in> set ids then strip_incoming i n else n) (notes_table db)"
      by (intro map_cong) auto
    then show ?thesis using None Cons.IH [OF Cons.prems(1)] by simp
  next
    case (Some m)
    define db1 where
      "db1 = notes_update k (\<lambda>n. n\<lparr>backlinkNoteIds := filter (\<lambda>b. b \<noteq> i) (backlinkNoteIds m)\<rparr>) db"
    have t1: "notes_table db1 = map (\<lambda>n. if note_id n = k then strip_incoming i n else n) (notes_table db)"
      unfolding db1_def strip_incoming_def
      using notes_update_row [OF Cons.prems(1) Some,
          of "\<lambda>m n. n\<lparr>backlinkNoteIds := filter (\<lambda>b. b \<noteq> i) (backlinkNoteIds m)\<rparr>"] .
    have "map note_id (notes_table db1) = map note_id (notes_table db)"
      by (simp add: t1 comp_def strip_incoming_def)
    from primary_keys_cong [OF this] Cons.prems(1) have "primary_keys db1" by simp
    from Cons.IH [OF this] have "notes_table (dropBacklinks i ids db1) =
       map (\<lambda>n. if note_id n \<in> set ids then strip_incoming i n else n) (notes_table db1)" .
    also have "\<dots> = map (\<lambda>n. if note_id n \<in> set (k # ids) then strip_incoming i n else n) (notes_table db)"
      by (auto simp: t1 strip_incoming_def)
    finally show ?thesis using Some by (simp add: Let_def db1_def)
  qed
qed

lemma dropLinks_notes:
  "primary_keys db \<Longrightarrow>
     notes_table (dropLinks i ids db) =
       map (\<lambda>n. if note_id n \<in> set ids then strip_outgoing i n else n) (notes_table db)"
proof (induction ids arbitrary: db)
  case Nil
  then show ?case by simp
next
  case (Cons k ids)
  show ?case
  proof (cases "notes_get k db")
    case None
    then have "\<And>n. n \<in> set (notes_table db) \<Longrightarrow> note_id n \<noteq> k"
      by (auto simp: notes_get_None)
    then have "map (\<lambda>n. if note_id n \<in> set (k # ids) then strip_outgoing i n else n) (notes_table db)
             = map (\<lambda>n. if note_id n \<in> set ids then strip_outgoing i n else n) (notes_table db)"
      by (intro map_cong) auto
    then show ?thesis using None Cons.IH [OF Cons.prems(1)] by simp
  next
    case (Some m)
    define db1 where
      "db1 = notes_update k (\<lambda>n. n\<lparr>linkedNoteIds := filter (\<lambda>b. b \<noteq> i) (linkedNoteIds m)\<rparr>) db"
    have t1: "notes_table db1 = map (\<lambda>n. if note_id n = k then strip_outgoing i n else n) (notes_table db)"
      unfolding db1_def strip_outgoing_def
      using notes_update_row [OF Cons.prems(1) Some,
          of "\<lambda>m n. n\<lparr>linkedNoteIds := filter (\<lambda>b. b \<noteq> i) (linkedNoteIds m)\<rparr>"] .
    have "map note_id (notes_table db1) = map note_id (notes_table db)"
      by (simp add: t1 comp_def strip_outgoing_def)
    from primary_keys_cong [OF this] Cons.prems(1) have "primary_keys db1" by simp
    from Cons.IH [OF this] have "notes_table (dropLinks i ids db1) =
       map (\<lambda>n. if note_id n \<in> set ids then strip_outgoing i n else n) (notes_table db1)" .
    also have "\<dots> = map (\<lambda>n. if note_id n \<in> set (k # ids) then strip_outgoing i n else n) (notes_table db)"
      by (auto simp: t1 strip_outgoing_def)
    finally show ?thesis using Some by (simp add: Let_def db1_def)
  qed
qed

lemma dropBacklinks_links [simp]: "links_table (dropBacklinks i ids db) = links_table db"
  by (induction ids arbitrary: db) (auto split: option.splits simp: Let_def)

lemma dropLinks_links [simp]: "links_table (dropLinks i ids db) = links_table db"
  by (induction ids arbitrary: db) (auto split: option.splits simp: Let_def)

lemma deleteNote_notes:
  assumes pk: "primary_keys db" and g: "notes_get i db = Some gone"
  shows "notes_table (deleteNote i db) =
           filter (\<lambda>n. note_id n \<noteq> i) (map (unlink i gone) (notes_table db))"
proof -
  define db1 where "db1 = dropBacklinks i (linkedNoteIds gone) db"
  have t1: "notes_table db1 =
      map (\<lambda>n. if note_id n \<in> set (linkedNoteIds gone) then strip_incoming i n else n) (notes_table db)"
    unfolding db1_def using dropBacklinks_notes [OF pk] .
  then have "map note_id (notes_table db1) = map note_id (notes_table db)"
    by (simp add: comp_def strip_incoming_def)
  from primary_keys_cong [OF this] pk have pk1: "primary_keys db1" by simp
  have t2: "notes_table (dropLinks i (backlinkNoteIds gone) db1) =
      map (\<lambda>n. if note_id n \<in> set (backlinkNoteIds gone) then strip_outgoing i n else n) (notes_table db1)"
    using dropLinks_notes [OF pk1] .
  have "notes_table (deleteNote i db) =
      filter (\<lambda>n. note_id n \<noteq> i) (notes_table (dropLinks i (backlinkNoteIds gone) db1))"
    using g by (simp add: deleteNote_def Let_def db1_def notes_delete_def)
  also have "\<dots> = filter (\<lambda>n. note_id n \<noteq> i) (map (unlink i gone) (notes_table db))"
    by (simp add: t2 t1 unlink_def [abs_def] Let_def comp_def)
  finally show ?thesis .
qed

lemma deleteNote_links:
  "notes_get i db = Some gone \<Longrightarrow>
     links_table (deleteNote i db) =
       filter (\<lambda>l. sourceNoteId l \<noteq> i \<and> targetNoteId l \<noteq> i) (links_table db)"
  by (simp add: deleteNote_def Let_def notes_delete_def)

lemma unlink_fields:
  "note_id (unlink i gone n) = note_id n"
  "set (linkedNoteIds (unlink i gone n)) =
     (if note_id n \<in> set (backlinkNoteIds gone) then set (linkedNoteIds n) - {i}
      else set (linkedNoteIds n))"
  "set (backlinkNoteIds (unlink i gone n)) =
     (if note_id n \<in> set (linkedNoteIds gone) then set (backlinkNoteIds n) - {i}
      else set (backlinkNoteIds n))"
  by (auto simp: unlink_def Let_def strip_incoming_def strip_outgoing_def)

lemma deleteNote_symmetric:
  assumes pk: "primary_keys db" and sym: "symmetric db"
  shows "symmetric (deleteNote i db)"
proof (cases "notes_get i db")
  case None
  with sym show ?thesis by (simp add: deleteNote_def)
next
  case (Some gone)
  have "(note_id (unlink i gone b) \<in> set (linkedNoteIds (unlink i gone a)))
      = (note_id (unlink i gone a) \<in> set (backlinkNoteIds (unlink i gone b)))"
    if a: "a \<in> set (notes_table db)" "note_id a \<noteq> i"
      and b: "b \<in> set (notes_table db)" "note_id b \<noteq> i" for a b
  proof -
    from sym a b have "(note_id b \<in> set (linkedNoteIds a)) = (note_id a \<in> set (backlinkNoteIds b))"
      by (simp add: symmetric_def)
    with a b show ?thesis by (auto simp: unlink_fields)
  qed
  then show ?thesis
    unfolding symmetric_def deleteNote_notes [OF pk Some] by (auto simp: unlink_fields)
qed

section \<open>Delete cleanup\<close>



section \<open>The links table under a content commit\<close>

subsection \<open>The links table under the loops\<close>

lemma updateNoteLinks_steps:
  assumes "notes_get x db = Some cur" and "updateNoteLinks E x c db = Inr db'"
  shows "\<exists>db2.
      addBacklinks E x (filter (\<lambda>i. i \<notin> set (linkedNoteIds cur)) (matching_ids c db))
        (notes_update x (\<lambda>n. n\<lparr>linkedNoteIds := matching_ids c db\<rparr>) db) = Inr db2
    \<and> addUnresolved E x (unresolved_titles c db)
        (removeBacklinks x (filter (\<lambda>i. i \<notin> set (matching_ids c db)) (linkedNoteIds cur)) db2)
        = Inr db'"
  using assms
  by (auto simp: updateNoteLinks_def Let_def matching_ids_def unresolved_titles_def
      split: sum.splits)

lemma find_image: "find P (map f xs) = map_option f (find (\<lambda>y. P (f y)) xs)"
  by (induction xs) auto

lemma notes_get_map:
  assumes "\<And>n. note_id (f n) = note_id n" and "notes_table db' = map f (notes_table db)"
  shows "notes_get j db' = map_option f (notes_get j db)"
  using assms by (simp add: notes_get_def find_image)

lemma addBacklinks_links:
  "addBacklinks E x ids db = Inr db' \<Longrightarrow>
     set (links_table db) \<subseteq> set (links_table db') \<and> unresolved_rows db' = unresolved_rows db"
proof (induction ids arbitrary: db)
  case Nil
  then show ?case by simp
next
  case (Cons i ids)
  show ?case
  proof (cases "notes_get i db")
    case None
    with Cons.prems have "addBacklinks E x ids db = Inr db'" by simp
    from Cons.IH [OF this] show ?thesis .
  next
    case (Some m)
    define db1 where
      "db1 = notes_update i (\<lambda>n. n\<lparr>backlinkNoteIds := set_add x (new_Set (backlinkNoteIds m))\<rparr>) db"
    from Some Cons.prems obtain db2 where
      a: "links_add \<lparr>link_id = uuidv4 E (tick db1), sourceNoteId = x, targetNoteId = i,
            targetTitle = title m, link_createdAt = date_now E (tick db1), resolved = True\<rparr>
            (draw db1) = Inr db2"
      and r: "addBacklinks E x ids db2 = Inr db'"
      by (auto simp: Let_def db1_def split: sum.splits)
    from links_add_Inr [OF a] have l2: "links_table db2 =
        insort_key link_id \<lparr>link_id = uuidv4 E (tick db1), sourceNoteId = x, targetNoteId = i,
            targetTitle = title m, link_createdAt = date_now E (tick db1), resolved = True\<rparr>
          (links_table db)"
      by (simp add: db1_def)
    then have "set (links_table db) \<subseteq> set (links_table db2)"
      by (auto simp: set_insort_key)
    moreover from l2 have "unresolved_rows db2 = unresolved_rows db"
      by (simp add: unresolved_rows_def filter_insort_triv)
    ultimately show ?thesis using Cons.IH [OF r] by auto
  qed
qed

lemma addBacklinks_row:
  "primary_keys db \<Longrightarrow> addBacklinks E x ids db = Inr db' \<Longrightarrow> i \<in> set ids \<Longrightarrow>
   notes_get i db = Some m \<Longrightarrow>
     \<exists>l \<in> set (links_table db').
        sourceNoteId l = x \<and> targetNoteId l = i \<and> targetTitle l = title m \<and> resolved l"
proof (induction ids arbitrary: db m)
  case Nil
  then show ?case by simp
next
  case (Cons k ids)
  show ?case
  proof (cases "notes_get k db")
    case None
    with Cons.prems have "addBacklinks E x ids db = Inr db'" and "i \<in> set ids" by auto
    with Cons.IH Cons.prems(1,4) show ?thesis by blast
  next
    case (Some mk)
    define db1 where
      "db1 = notes_update k (\<lambda>n. n\<lparr>backlinkNoteIds := set_add x (new_Set (backlinkNoteIds mk))\<rparr>) db"
    let ?row = "\<lparr>link_id = uuidv4 E (tick db1), sourceNoteId = x, targetNoteId = k,
            targetTitle = title mk, link_createdAt = date_now E (tick db1), resolved = True\<rparr>"
    from Some Cons.prems(2) obtain db2 where
      a: "links_add ?row (draw db1) = Inr db2"
      and r: "addBacklinks E x ids db2 = Inr db'"
      by (auto simp: Let_def db1_def split: sum.splits)
    from links_add_Inr [OF a] have l2: "links_table db2 = insort_key link_id ?row (links_table db)"
      and n2: "notes_table db2 = notes_table db1"
      by (simp_all add: db1_def)
    have n1: "notes_table db1 = map (\<lambda>n. if note_id n = k then add_backlink x n else n) (notes_table db)"
      unfolding db1_def add_backlink_def
      using notes_update_row [OF Cons.prems(1) Some,
          of "\<lambda>m n. n\<lparr>backlinkNoteIds := set_add x (new_Set (backlinkNoteIds m))\<rparr>"] .
    show ?thesis
    proof (cases "i = k")
      case True
      with Some Cons.prems(4) have "mk = m" by simp
      with l2 True have "?row \<in> set (links_table db2)" by (simp add: set_insort_key)
      with addBacklinks_links [OF r] have "?row \<in> set (links_table db')" by blast
      with True \<open>mk = m\<close> show ?thesis by (intro bexI [of _ ?row]) simp_all
    next
      case False
      with Cons.prems(3) have i: "i \<in> set ids" by simp
      have "map note_id (notes_table db2) = map note_id (notes_table db)"
        by (simp add: n2 n1 comp_def)
      from primary_keys_cong [OF this] Cons.prems(1) have pk2: "primary_keys db2" by simp
      have "notes_get i db2 = map_option (\<lambda>n. if note_id n = k then add_backlink x n else n) (notes_get i db)"
        by (rule notes_get_map) (simp_all add: n2 n1)
      with Cons.prems(4) False have "notes_get i db2 = Some m"
        by (auto dest: notes_get_Some)
      from Cons.IH [OF pk2 r i this] show ?thesis .
    qed
  qed
qed

lemma removeBacklinks_links:
  "\<exists>Q. links_table (removeBacklinks x ids db) = filter Q (links_table db)
       \<and> (\<forall>l. \<not> Q l \<longrightarrow> sourceNoteId l = x \<and> targetNoteId l \<in> set ids)"
proof (induction ids arbitrary: db)
  case Nil
  have "links_table db = filter (\<lambda>l. True) (links_table db)" by simp
  then show ?case by (intro exI [of _ "\<lambda>l. True"]) simp
next
  case (Cons i ids)
  show ?case
  proof (cases "notes_get i db")
    case None
    with Cons.IH [of db] show ?thesis by auto
  next
    case (Some m)
    define db2 where "db2 = links_delete (\<lambda>l. sourceNoteId l = x \<and> targetNoteId l = i)
       (notes_update i (\<lambda>n. n\<lparr>backlinkNoteIds := set_delete x (new_Set (backlinkNoteIds m))\<rparr>) db)"
    from Cons.IH [of db2] obtain Q where
      q: "links_table (removeBacklinks x ids db2) = filter Q (links_table db2)"
      and qq: "\<forall>l. \<not> Q l \<longrightarrow> sourceNoteId l = x \<and> targetNoteId l \<in> set ids" by blast
    have "links_table db2 = filter (\<lambda>l. \<not> (sourceNoteId l = x \<and> targetNoteId l = i)) (links_table db)"
      by (simp add: db2_def)
    with q have "links_table (removeBacklinks x (i # ids) db)
        = filter (\<lambda>l. \<not> (sourceNoteId l = x \<and> targetNoteId l = i) \<and> Q l) (links_table db)"
      using Some by (simp add: Let_def db2_def)
    moreover from qq have "\<forall>l. \<not> (\<not> (sourceNoteId l = x \<and> targetNoteId l = i) \<and> Q l)
        \<longrightarrow> sourceNoteId l = x \<and> targetNoteId l \<in> set (i # ids)" by auto
    ultimately show ?thesis by blast
  qed
qed

lemma addUnresolved_links:
  "addUnresolved E x ts db = Inr db' \<Longrightarrow>
     set (links_table db) \<subseteq> set (links_table db') \<and> (\<forall>t \<in> set ts. has_placeholder x t db')"
proof (induction ts arbitrary: db)
  case Nil
  then show ?case by simp
next
  case (Cons t ts)
  show ?case
  proof (cases "find (\<lambda>l. sourceNoteId l = x \<and> targetTitle l = t \<and> \<not> resolved l) (links_table db)")
    case (Some l)
    with Cons.prems have r: "addUnresolved E x ts db = Inr db'" by simp
    from Some have "has_placeholder x t db"
      by (auto simp: has_placeholder_def find_Some_iff)
    with Cons.IH [OF r] show ?thesis by (auto simp: has_placeholder_def)
  next
    case None
    let ?row = "\<lparr>link_id = uuidv4 E (tick db), sourceNoteId = x, targetNoteId = [],
                   targetTitle = t, link_createdAt = date_now E (tick db), resolved = False\<rparr>"
    from None Cons.prems obtain db1 where a: "links_add ?row (draw db) = Inr db1"
      and r: "addUnresolved E x ts db1 = Inr db'"
      by (auto split: sum.splits)
    from links_add_Inr [OF a] have l1: "links_table db1 = insort_key link_id ?row (links_table db)"
      by simp
    then have "?row \<in> set (links_table db1)" and s: "set (links_table db) \<subseteq> set (links_table db1)"
      by (auto simp: set_insort_key)
    with Cons.IH [OF r] have "?row \<in> set (links_table db')" by blast
    then have "has_placeholder x t db'" unfolding has_placeholder_def
      by (intro bexI [of _ ?row]) simp_all
    with Cons.IH [OF r] s show ?thesis by auto
  qed
qed

lemma addUnresolved_nothing_to_add:
  "\<forall>t \<in> set ts. has_placeholder x t db \<Longrightarrow> addUnresolved E x ts db = Inr db"
proof (induction ts)
  case Nil
  show ?case by simp
next
  case (Cons t ts)
  then have "find (\<lambda>l. sourceNoteId l = x \<and> targetTitle l = t \<and> \<not> resolved l) (links_table db) \<noteq> None"
    by (auto simp: has_placeholder_def find_None_iff)
  with Cons show ?case by auto
qed

lemma distinct_keys_insort:
  "distinct (map g (filter P (insort_key f a xs))) =
     (if P a then g a \<notin> g ` set (filter P xs) \<and> distinct (map g (filter P xs))
      else distinct (map g (filter P xs)))"
  by (induction xs) (auto simp: set_insort_key image_iff)

lemma addUnresolved_one_row:
  "addUnresolved E x ts db = Inr db' \<Longrightarrow> one_row_per_pair (unresolved_rows db) \<Longrightarrow>
     one_row_per_pair (unresolved_rows db')"
proof (induction ts arbitrary: db)
  case Nil
  then show ?case by simp
next
  case (Cons t ts)
  show ?case
  proof (cases "find (\<lambda>l. sourceNoteId l = x \<and> targetTitle l = t \<and> \<not> resolved l) (links_table db)")
    case (Some l)
    with Cons.prems have "addUnresolved E x ts db = Inr db'" by simp
    from Cons.IH [OF this Cons.prems(2)] show ?thesis .
  next
    case None
    let ?row = "\<lparr>link_id = uuidv4 E (tick db), sourceNoteId = x, targetNoteId = [],
                   targetTitle = t, link_createdAt = date_now E (tick db), resolved = False\<rparr>"
    from None Cons.prems obtain db1 where a: "links_add ?row (draw db) = Inr db1"
      and r: "addUnresolved E x ts db1 = Inr db'"
      by (auto split: sum.splits)
    from links_add_Inr [OF a] have l1: "links_table db1 = insort_key link_id ?row (links_table db)"
      by simp
    from None have "link_key ?row \<notin> link_key ` set (unresolved_rows db)"
      by (auto simp: find_None_iff unresolved_rows_def link_key_def)
    with Cons.prems(2) have "one_row_per_pair (unresolved_rows db1)"
      by (simp add: one_row_per_pair_def unresolved_rows_def l1 distinct_keys_insort)
    from Cons.IH [OF r this] show ?thesis .
  qed
qed

subsection \<open>Content commit: rows kept, rows added\<close>

lemma updateNoteLinks_unresolved_rows:
  assumes run: "updateNoteLinks E x c db = Inr db'"
    and one: "one_row_per_pair (unresolved_rows db)"
  shows "one_row_per_pair (unresolved_rows db')"
proof (cases "notes_get x db")
  case None
  with run have "db' = db" by (simp add: updateNoteLinks_def)
  with one show ?thesis by simp
next
  case (Some cur)
  let ?removed = "filter (\<lambda>i. i \<notin> set (matching_ids c db)) (linkedNoteIds cur)"
  from updateNoteLinks_steps [OF Some run] obtain db2 where
    a: "addBacklinks E x (filter (\<lambda>i. i \<notin> set (linkedNoteIds cur)) (matching_ids c db))
          (notes_update x (\<lambda>n. n\<lparr>linkedNoteIds := matching_ids c db\<rparr>) db) = Inr db2"
    and u: "addUnresolved E x (unresolved_titles c db) (removeBacklinks x ?removed db2) = Inr db'"
    by blast
  from addBacklinks_links [OF a] have "unresolved_rows db2 = unresolved_rows db"
    by (simp add: unresolved_rows_def)
  with one have o2: "one_row_per_pair (unresolved_rows db2)" by simp
  from removeBacklinks_links [of x ?removed db2] obtain Q where
    q: "links_table (removeBacklinks x ?removed db2) = filter Q (links_table db2)" by blast
  have "unresolved_rows (removeBacklinks x ?removed db2) = filter Q (unresolved_rows db2)"
    by (simp add: unresolved_rows_def q conj_commute)
  with o2 have "one_row_per_pair (unresolved_rows (removeBacklinks x ?removed db2))"
    by (simp add: one_row_per_pair_def distinct_map_filter)
  from addUnresolved_one_row [OF u this] show ?thesis .
qed

subsection \<open>A second content commit\<close>

lemma matching_ids_relinked:
  assumes "notes_table db' = map (relink x old new) (notes_table db)"
  shows "matching_ids c db' = matching_ids c db"
  using assms by (simp add: matching_ids_def filter_map comp_def relink_fields)

lemma unresolved_titles_relinked:
  assumes "notes_table db' = map (relink x old new) (notes_table db)"
  shows "unresolved_titles c db' = unresolved_titles c db"
proof -
  have "list_ex (\<lambda>n. title n = t)
          (filter (\<lambda>n. title n \<in> set (parseWikiLinks c)) (map (relink x old new) (notes_table db)))
      = list_ex (\<lambda>n. title n = t)
          (filter (\<lambda>n. title n \<in> set (parseWikiLinks c)) (notes_table db))" for t
    by (auto simp: list_ex_iff relink_fields)
  then show ?thesis by (simp add: unresolved_titles_def assms)
qed

subsection \<open>Content commit settles when the drawn ids are fresh\<close>

lemma fresh_uuids_add:
  assumes f: "fresh_uuids E db" and t: "tick db0 = tick db" and l: "links_table db0 = links_table db"
    and i: "link_id row = uuidv4 E (tick db)"
  shows "\<exists>db'. links_add row (draw db0) = Inr db' \<and> fresh_uuids E db'"
proof -
  from f have nin: "uuidv4 E (tick db) \<notin> link_id ` set (links_table db)"
    and inj: "inj_on (uuidv4 E) {tick db..}"
    and fr: "\<forall>k \<ge> tick db. uuidv4 E k \<notin> link_id ` set (links_table db)"
    by (simp_all add: fresh_uuids_def)
  define db' where "db' = (draw db0)\<lparr>links_table := insort_key link_id row (links_table db),
                   writes := writes db0 @ [LinksAdd (link_id row)]\<rparr>"
  from nin i l have a: "links_add row (draw db0) = Inr db'"
    by (simp add: links_add_def db'_def)
  have "uuidv4 E k \<notin> link_id ` set (links_table db')" if "k \<ge> tick db'" for k
  proof -
    from that t have k: "k \<ge> Suc (tick db)" by (simp add: db'_def)
    have "uuidv4 E k \<noteq> uuidv4 E (tick db)"
    proof
      assume "uuidv4 E k = uuidv4 E (tick db)"
      with inj k have "k = tick db" by (intro inj_onD [OF inj]) simp_all
      with k show False by simp
    qed
    moreover from k fr have "uuidv4 E k \<notin> link_id ` set (links_table db)" by simp
    ultimately show ?thesis by (simp add: db'_def set_insort_key i)
  qed
  moreover have "inj_on (uuidv4 E) {tick db'..}"
    using inj t by (auto simp: db'_def inj_on_def)
  ultimately have "fresh_uuids E db'" by (simp add: fresh_uuids_def)
  with a show ?thesis by blast
qed

lemma fresh_uuids_cong:
  "tick db' = tick db \<Longrightarrow> set (links_table db') \<subseteq> set (links_table db) \<Longrightarrow>
     fresh_uuids E db \<Longrightarrow> fresh_uuids E db'"
  by (auto simp: fresh_uuids_def)

lemma addBacklinks_settles:
  "fresh_uuids E db \<Longrightarrow> \<exists>db'. addBacklinks E x ids db = Inr db' \<and> fresh_uuids E db'"
proof (induction ids arbitrary: db)
  case Nil
  then show ?case by simp
next
  case (Cons i ids)
  show ?case
  proof (cases "notes_get i db")
    case None
    with Cons show ?thesis by simp
  next
    case (Some m)
    define db1 where
      "db1 = notes_update i (\<lambda>n. n\<lparr>backlinkNoteIds := set_add x (new_Set (backlinkNoteIds m))\<rparr>) db"
    let ?row = "\<lparr>link_id = uuidv4 E (tick db1), sourceNoteId = x, targetNoteId = i,
            targetTitle = title m, link_createdAt = date_now E (tick db1), resolved = True\<rparr>"
    have "\<exists>db2. links_add ?row (draw db1) = Inr db2 \<and> fresh_uuids E db2"
      by (rule fresh_uuids_add [OF Cons.prems]) (simp_all add: db1_def)
    then obtain db2 where a: "links_add ?row (draw db1) = Inr db2" and f2: "fresh_uuids E db2"
      by blast
    from Cons.IH [OF f2] obtain db' where "addBacklinks E x ids db2 = Inr db'" "fresh_uuids E db'"
      by blast
    with Some a show ?thesis by (simp add: Let_def db1_def)
  qed
qed

lemma removeBacklinks_tick [simp]: "tick (removeBacklinks x ids db) = tick db"
  by (induction ids arbitrary: db) (auto split: option.splits simp: Let_def)

lemma addUnresolved_settles:
  "fresh_uuids E db \<Longrightarrow> \<exists>db'. addUnresolved E x ts db = Inr db'"
proof (induction ts arbitrary: db)
  case Nil
  then show ?case by simp
next
  case (Cons t ts)
  show ?case
  proof (cases "find (\<lambda>l. sourceNoteId l = x \<and> targetTitle l = t \<and> \<not> resolved l) (links_table db)")
    case (Some l)
    with Cons show ?thesis by simp
  next
    case None
    let ?row = "\<lparr>link_id = uuidv4 E (tick db), sourceNoteId = x, targetNoteId = [],
                   targetTitle = t, link_createdAt = date_now E (tick db), resolved = False\<rparr>"
    have "\<exists>db1. links_add ?row (draw db) = Inr db1 \<and> fresh_uuids E db1"
      by (rule fresh_uuids_add [OF Cons.prems]) simp_all
    then obtain db1 where a: "links_add ?row (draw db) = Inr db1" and f1: "fresh_uuids E db1"
      by blast
    from Cons.IH [OF f1] obtain db' where "addUnresolved E x ts db1 = Inr db'" by blast
    with None a show ?thesis by simp
  qed
qed

lemma updateNoteLinks_settles:
  assumes "fresh_uuids E db"
  shows "\<exists>db'. updateNoteLinks E x c db = Inr db'"
proof (cases "notes_get x db")
  case None
  then show ?thesis by (simp add: updateNoteLinks_def)
next
  case (Some cur)
  let ?new = "matching_ids c db" and ?old = "linkedNoteIds cur"
  let ?removed = "filter (\<lambda>i. i \<notin> set ?new) ?old"
  have "fresh_uuids E (notes_update x (\<lambda>n. n\<lparr>linkedNoteIds := ?new\<rparr>) db)"
    using assms by (auto intro: fresh_uuids_cong)
  from addBacklinks_settles [OF this] obtain db2 where
    a: "addBacklinks E x (filter (\<lambda>i. i \<notin> set ?old) ?new)
          (notes_update x (\<lambda>n. n\<lparr>linkedNoteIds := ?new\<rparr>) db) = Inr db2"
    and f2: "fresh_uuids E db2" by blast
  from removeBacklinks_links [of x ?removed db2] obtain Q where
    "links_table (removeBacklinks x ?removed db2) = filter Q (links_table db2)" by blast
  then have "set (links_table (removeBacklinks x ?removed db2)) \<subseteq> set (links_table db2)" by auto
  with f2 have "fresh_uuids E (removeBacklinks x ?removed db2)"
    by (auto intro: fresh_uuids_cong)
  from addUnresolved_settles [OF this] obtain db' where
    "addUnresolved E x (unresolved_titles c db) (removeBacklinks x ?removed db2) = Inr db'"
    by blast
  with Some a show ?thesis
    by (simp add: updateNoteLinks_def Let_def matching_ids_def [symmetric]
        unresolved_titles_def [symmetric])
qed

subsection \<open>createNote and updateNote\<close>

lemma createNote_Inr:
  assumes "createNote E data db = Inr (n, db')"
  shows "links_table db' = links_table db
       \<and> notes_table db' = insort_key note_id n (notes_table db)
       \<and> note_id n \<notin> note_id ` set (notes_table db)"
  using assms
  by (auto simp: createNote_def Let_def notes_add_def split: sum.splits if_splits)

lemma updateNote_links: "links_table (updateNote E i u db) = links_table db"
  by (simp add: updateNote_def Let_def)

lemma updateNote_notes:
  "\<exists>p. notes_table (updateNote E i u db) =
          map (\<lambda>n. if note_id n = i then spread n p else n) (notes_table db)
      \<and> p_linkedNoteIds p = p_linkedNoteIds u \<and> p_backlinkNoteIds p = p_backlinkNoteIds u"
  by (auto simp: updateNote_def Let_def notes_update_def split: option.splits)

lemma deleteNote_one_row:
  "one_row_per_pair (links_table db) \<Longrightarrow> one_row_per_pair (links_table (deleteNote i db))"
proof (cases "notes_get i db")
  case None
  assume "one_row_per_pair (links_table db)"
  with None show ?thesis by (simp add: deleteNote_def)
next
  case (Some gone)
  assume "one_row_per_pair (links_table db)"
  then show ?thesis
    by (simp add: deleteNote_links [OF Some] one_row_per_pair_def distinct_map_filter)
qed

section \<open>One reference, several notes of that title\<close>

text \<open>
  Claim C1, as stated, fails. Two notes are titled Dup and note c commits a body with the
  single reference to Dup: the outgoing list of c gets both ids and two resolved rows are
  added, one per note. There is no tie-break.
\<close>

theorem updateNoteLinks_two_edges_for_one_reference:
  "parseWikiLinks ''see [[Dup]]'' = [''Dup'']
   \<and> \<not> isl (updateNoteLinks env0 ''c'' ''see [[Dup]]'' db_dup)
   \<and> map_option linkedNoteIds
        (notes_get ''c'' (projr (updateNoteLinks env0 ''c'' ''see [[Dup]]'' db_dup)))
       = Some [''d1'', ''d2'']
   \<and> map targetNoteId
        (filter resolved (links_table (projr (updateNoteLinks env0 ''c'' ''see [[Dup]]'' db_dup))))
       = [''d1'', ''d2'']"
  by code_simp

text \<open>
  Claim C1, amended. A content commit of an existing source that settles sets the source's
  outgoing list to the ids of all notes whose title is one of the parsed references, in
  table order, so a reference matched by several notes gives one outgoing edge to each of
  them; and each such note that was not in the outgoing list before gets a resolved Link
  row from the source.
\<close>

theorem updateNoteLinks_links_every_match:
  assumes pk: "primary_keys db" and cur: "notes_get x db = Some cur"
    and run: "updateNoteLinks E x c db = Inr db'"
  shows "map_option linkedNoteIds (notes_get x db') = Some (matching_ids c db)
     \<and> (\<forall>m \<in> set (notes_table db).
          title m \<in> set (parseWikiLinks c) \<longrightarrow> note_id m \<notin> set (linkedNoteIds cur) \<longrightarrow>
          (\<exists>l \<in> set (links_table db').
              sourceNoteId l = x \<and> targetNoteId l = note_id m \<and> targetTitle l = title m
              \<and> resolved l))"
proof (intro conjI ballI impI)
  let ?new = "matching_ids c db" and ?old = "linkedNoteIds cur"
  have t: "notes_table db' = map (relink x ?old ?new) (notes_table db)"
    using updateNoteLinks_notes [OF pk cur run] .
  have "notes_get x db' = map_option (relink x ?old ?new) (notes_get x db)"
    by (rule notes_get_map) (simp_all add: relink_fields t)
  with cur notes_get_Some [OF cur]
  show "map_option linkedNoteIds (notes_get x db') = Some ?new"
    by (simp add: relink_fields)
next
  fix m
  assume m: "m \<in> set (notes_table db)" and tm: "title m \<in> set (parseWikiLinks c)"
    and nm: "note_id m \<notin> set (linkedNoteIds cur)"
  let ?new = "matching_ids c db" and ?old = "linkedNoteIds cur"
  let ?added = "filter (\<lambda>i. i \<notin> set ?old) ?new"
  let ?removed = "filter (\<lambda>i. i \<notin> set ?new) ?old"
  define db1 where "db1 = notes_update x (\<lambda>n. n\<lparr>linkedNoteIds := ?new\<rparr>) db"
  from updateNoteLinks_steps [OF cur run] obtain db2 where
    a: "addBacklinks E x ?added db1 = Inr db2"
    and u: "addUnresolved E x (unresolved_titles c db) (removeBacklinks x ?removed db2) = Inr db'"
    unfolding db1_def by blast
  from m tm have inew: "note_id m \<in> set ?new" by (auto simp: matching_ids_def)
  with nm have iadd: "note_id m \<in> set ?added" by simp
  have t1: "notes_table db1 = map (\<lambda>n. if note_id n = x then n\<lparr>linkedNoteIds := ?new\<rparr> else n) (notes_table db)"
    by (simp add: db1_def notes_update_def)
  then have "map note_id (notes_table db1) = map note_id (notes_table db)"
    by (simp add: comp_def)
  from primary_keys_cong [OF this] pk have pk1: "primary_keys db1" by simp
  from pk m have gm: "notes_get (note_id m) db = Some m"
    by (cases "notes_get (note_id m) db")
       (auto simp: notes_get_None dest: notes_get_unique)
  have "notes_get (note_id m) db1
      = map_option (\<lambda>n. if note_id n = x then n\<lparr>linkedNoteIds := ?new\<rparr> else n)
          (notes_get (note_id m) db)"
    by (rule notes_get_map) (simp_all add: t1)
  with gm obtain m1 where g1: "notes_get (note_id m) db1 = Some m1" and tt: "title m1 = title m"
    by auto
  from addBacklinks_row [OF pk1 a iadd g1] tt obtain l where
    l2: "l \<in> set (links_table db2)" and lf: "sourceNoteId l = x" "targetNoteId l = note_id m"
      "targetTitle l = title m" "resolved l" by auto
  from removeBacklinks_links [of x ?removed db2] obtain Q where
    q: "links_table (removeBacklinks x ?removed db2) = filter Q (links_table db2)"
    and qq: "\<forall>l. \<not> Q l \<longrightarrow> sourceNoteId l = x \<and> targetNoteId l \<in> set ?removed" by blast
  from inew lf have "targetNoteId l \<notin> set ?removed" by simp
  with qq have "Q l" by blast
  with q l2 have "l \<in> set (links_table (removeBacklinks x ?removed db2))" by simp
  with addUnresolved_links [OF u] have "l \<in> set (links_table db')" by blast
  with lf show "\<exists>l \<in> set (links_table db').
              sourceNoteId l = x \<and> targetNoteId l = note_id m \<and> targetTitle l = title m
              \<and> resolved l" by blast
qed

theorem updateNoteLinks_links_every_match_witness:
  "primary_keys db_dup \<and> notes_get ''c'' db_dup = Some (mkNote ''c'' ''C'' [] [])
   \<and> \<not> isl (updateNoteLinks env0 ''c'' ''see [[Dup]]'' db_dup)
   \<and> map_option linkedNoteIds
        (notes_get ''c'' (projr (updateNoteLinks env0 ''c'' ''see [[Dup]]'' db_dup)))
       = Some (matching_ids ''see [[Dup]]'' db_dup)
   \<and> (\<exists>l \<in> set (links_table (projr (updateNoteLinks env0 ''c'' ''see [[Dup]]'' db_dup))).
         sourceNoteId l = ''c'' \<and> targetNoteId l = ''d2'' \<and> targetTitle l = ''Dup'' \<and> resolved l)"
proof -
  let ?run = "updateNoteLinks env0 ''c'' ''see [[Dup]]'' db_dup"
  have pk: "primary_keys db_dup" by code_simp
  have cur: "notes_get ''c'' db_dup = Some (mkNote ''c'' ''C'' [] [])" by code_simp
  have ok: "\<not> isl ?run" by code_simp
  then have r: "?run = Inr (projr ?run)" by (cases ?run) simp_all
  have m: "mkNote ''d2'' ''Dup'' [] [] \<in> set (notes_table db_dup)" by code_simp
  have t: "title (mkNote ''d2'' ''Dup'' [] []) \<in> set (parseWikiLinks ''see [[Dup]]'')"
    by code_simp
  have n: "note_id (mkNote ''d2'' ''Dup'' [] []) \<notin> set (linkedNoteIds (mkNote ''c'' ''C'' [] []))"
    by code_simp
  have i: "note_id (mkNote ''d2'' ''Dup'' [] []) = ''d2''" "title (mkNote ''d2'' ''Dup'' [] []) = ''Dup''"
    by (simp_all add: mkNote_def)
  from updateNoteLinks_links_every_match [OF pk cur r] m t n i pk cur ok
  show ?thesis by fastforce
qed

section \<open>Creating a note\<close>




section \<open>Committing the same text twice\<close>

text \<open>
  Claim C3, as stated, fails. The second commit of the same text does issue a write: the
  update of the source's outgoing list at line 66 is unconditional.
\<close>

theorem updateNoteLinks_second_commit_writes:
  "\<not> isl (updateNoteLinks env0 ''c'' ''see [[Dup]] and [[X]]'' db_dup)
   \<and> writes (projr (updateNoteLinks env0 ''c'' ''see [[Dup]] and [[X]]''
                (projr (updateNoteLinks env0 ''c'' ''see [[Dup]] and [[X]]'' db_dup))))
       = writes (projr (updateNoteLinks env0 ''c'' ''see [[Dup]] and [[X]]'' db_dup))
         @ [NotesUpdate ''c'']"
  by code_simp

text \<open>
  Claim C3, amended. After a content commit that settled, a second commit of the same
  text for the same note settles whatever ids it would draw, leaves both tables as they
  are, and issues exactly one write when the note exists, the update of the source's
  outgoing list with the value it already has (and none when the note does not exist):
  no backlink is touched and no Link row is added or deleted.
\<close>

theorem updateNoteLinks_second_commit:
  assumes pk: "primary_keys db" and run: "updateNoteLinks E x c db = Inr db1"
  shows "updateNoteLinks E' x c db1 =
           Inr (db1\<lparr>writes := writes db1 @ (if notes_get x db = None then [] else [NotesUpdate x])\<rparr>)"
proof (cases "notes_get x db")
  case None
  with run have "db1 = db" by (simp add: updateNoteLinks_def)
  with None show ?thesis by (simp add: updateNoteLinks_def)
next
  case (Some cur)
  let ?new = "matching_ids c db" and ?old = "linkedNoteIds cur"
  let ?removed = "filter (\<lambda>i. i \<notin> set ?new) ?old"
  have t: "notes_table db1 = map (relink x ?old ?new) (notes_table db)"
    using updateNoteLinks_notes [OF pk Some run] .
  have "notes_get x db1 = map_option (relink x ?old ?new) (notes_get x db)"
    by (rule notes_get_map) (simp_all add: relink_fields t)
  with Some have g1: "notes_get x db1 = Some (relink x ?old ?new cur)" by simp
  from notes_get_Some [OF Some] have old1: "linkedNoteIds (relink x ?old ?new cur) = ?new"
    by (simp add: relink_fields)
  have new1: "matching_ids c db1 = ?new" using t by (rule matching_ids_relinked)
  have ut1: "unresolved_titles c db1 = unresolved_titles c db"
    using t by (rule unresolved_titles_relinked)
  define db1' where "db1' = db1\<lparr>writes := writes db1 @ [NotesUpdate x]\<rparr>"
  have "map (\<lambda>n. if note_id n = x then n\<lparr>linkedNoteIds := ?new\<rparr> else n) (notes_table db1)
      = notes_table db1"
    unfolding t by (simp add: relink_fields map_idI)
  then have up: "notes_update x (\<lambda>n. n\<lparr>linkedNoteIds := ?new\<rparr>) db1 = db1'"
    by (simp add: notes_update_def db1'_def)
  from updateNoteLinks_steps [OF Some run] obtain db2 where
    u: "addUnresolved E x (unresolved_titles c db) (removeBacklinks x ?removed db2) = Inr db1"
    by blast
  from addUnresolved_links [OF u] have "\<forall>t \<in> set (unresolved_titles c db). has_placeholder x t db1"
    by blast
  then have "\<forall>t \<in> set (unresolved_titles c db). has_placeholder x t db1'"
    by (simp add: has_placeholder_def db1'_def)
  then have "addUnresolved E' x (unresolved_titles c db) db1' = Inr db1'"
    by (rule addUnresolved_nothing_to_add)
  then have "updateNoteLinks E' x c db1 = Inr db1'"
    using g1 old1 new1 ut1 up
    by (simp add: updateNoteLinks_def Let_def matching_ids_def [symmetric]
        unresolved_titles_def [symmetric])
  with Some show ?thesis by (simp add: db1'_def)
qed

theorem updateNoteLinks_second_commit_witness:
  "primary_keys db_dup
   \<and> \<not> isl (updateNoteLinks env0 ''c'' ''see [[Dup]] and [[X]]'' db_dup)
   \<and> notes_get ''c'' db_dup \<noteq> None
   \<and> updateNoteLinks env0 ''c'' ''see [[Dup]] and [[X]]''
        (projr (updateNoteLinks env0 ''c'' ''see [[Dup]] and [[X]]'' db_dup))
       = Inr ((projr (updateNoteLinks env0 ''c'' ''see [[Dup]] and [[X]]'' db_dup))
                \<lparr>writes := writes (projr (updateNoteLinks env0 ''c'' ''see [[Dup]] and [[X]]'' db_dup))
                           @ [NotesUpdate ''c'']\<rparr>)"
proof -
  let ?run = "updateNoteLinks env0 ''c'' ''see [[Dup]] and [[X]]'' db_dup"
  have pk: "primary_keys db_dup" by code_simp
  have ok: "\<not> isl ?run" by code_simp
  then have r: "?run = Inr (projr ?run)" by (cases ?run) simp_all
  have g: "notes_get ''c'' db_dup \<noteq> None" by code_simp
  from updateNoteLinks_second_commit [OF pk r, of env0] g pk ok show ?thesis by simp
qed

section \<open>Placeholders whose title left the text\<close>




section \<open>Rows per source and title\<close>

text \<open>
  Claim C5, as stated, fails. With two notes titled Dup, a commit of note c referencing
  Dup adds two rows with the pair (c, Dup), from a store that had no row at all.
\<close>

theorem updateNoteLinks_two_rows_for_one_pair:
  "one_row_per_pair (links_table db_dup)
   \<and> \<not> isl (updateNoteLinks env0 ''c'' ''[[Dup]]'' db_dup)
   \<and> map link_key (links_table (projr (updateNoteLinks env0 ''c'' ''[[Dup]]'' db_dup)))
       = [(''c'', ''Dup''), (''c'', ''Dup'')]
   \<and> \<not> one_row_per_pair (links_table (projr (updateNoteLinks env0 ''c'' ''[[Dup]]'' db_dup)))"
  by code_simp

text \<open>
  Claim C5, amended. A content commit that settles keeps the unresolved rows at one per
  pair of source id and target title, if they were so before. createNote and updateNote
  leave the links table as it is and deleteNote only removes rows, so these keep at most
  one row per pair.
\<close>

theorem link_rows_per_pair:
  "(\<forall>db'. updateNoteLinks E x c db = Inr db' \<longrightarrow> one_row_per_pair (unresolved_rows db)
        \<longrightarrow> one_row_per_pair (unresolved_rows db'))
   \<and> (\<forall>n db'. createNote E data db = Inr (n, db') \<longrightarrow> links_table db' = links_table db)
   \<and> links_table (updateNote E i u db) = links_table db
   \<and> (one_row_per_pair (links_table db) \<longrightarrow> one_row_per_pair (links_table (deleteNote j db)))"
  using updateNoteLinks_unresolved_rows createNote_Inr updateNote_links deleteNote_one_row
  by blast

theorem link_rows_per_pair_witness:
  "\<not> isl (updateNoteLinks env0 ''a'' ''[[X]] and [[Y]]'' db_placeholder)
   \<and> one_row_per_pair (unresolved_rows db_placeholder)
   \<and> one_row_per_pair
        (unresolved_rows (projr (updateNoteLinks env0 ''a'' ''[[X]] and [[Y]]'' db_placeholder)))
   \<and> \<not> isl (createNote env0 no_patch db_placeholder)
   \<and> links_table (snd (projr (createNote env0 no_patch db_placeholder))) = links_table db_placeholder
   \<and> one_row_per_pair (links_table db_placeholder)
   \<and> one_row_per_pair (links_table (deleteNote ''n'' db_placeholder))"
proof -
  let ?run = "updateNoteLinks env0 ''a'' ''[[X]] and [[Y]]'' db_placeholder"
  let ?cr = "createNote env0 no_patch db_placeholder"
  have ok: "\<not> isl ?run" by code_simp
  then have r: "?run = Inr (projr ?run)" by (cases ?run) simp_all
  have ok2: "\<not> isl ?cr" by code_simp
  then have r2: "?cr = Inr (fst (projr ?cr), snd (projr ?cr))" by (cases ?cr) simp_all
  have o: "one_row_per_pair (unresolved_rows db_placeholder)" by code_simp
  have o2: "one_row_per_pair (links_table db_placeholder)" by code_simp
  from link_rows_per_pair [of env0 "''a''" "''[[X]] and [[Y]]''" db_placeholder no_patch
      "''n''" no_patch "''n''"] r r2 ok ok2 o o2
  show ?thesis by blast
qed

section \<open>Renaming a note\<close>

text \<open>
  Claim C8, as stated, fails. Note a has an unresolved row for the title X; renaming note
  n to X through updateNote leaves the row unresolved and every adjacency list empty.
\<close>

theorem updateNote_rename_leaves_placeholder:
  "map link_key (links_table db_placeholder) = [(''a'', ''X'')]
   \<and> map resolved (links_table db_placeholder) = [False]
   \<and> map_option title
        (notes_get ''n'' (updateNote env0 ''n'' (no_patch\<lparr>p_title := Some ''X''\<rparr>) db_placeholder))
       = Some ''X''
   \<and> links_table (updateNote env0 ''n'' (no_patch\<lparr>p_title := Some ''X''\<rparr>) db_placeholder)
       = links_table db_placeholder
   \<and> map linkedNoteIds
        (notes_table (updateNote env0 ''n'' (no_patch\<lparr>p_title := Some ''X''\<rparr>) db_placeholder))
       = [[], []]
   \<and> map backlinkNoteIds
        (notes_table (updateNote env0 ''n'' (no_patch\<lparr>p_title := Some ''X''\<rparr>) db_placeholder))
       = [[], []]"
  by code_simp

text \<open>
  Claim C8, amended. updateNote runs no resolution pass: it leaves the links table as it
  is and every other note unchanged, and unless the update itself carries adjacency lists
  it leaves the outgoing and incoming lists of all notes unchanged.
\<close>

theorem updateNote_no_resolution:
  "links_table (updateNote E i u db) = links_table db
   \<and> (\<forall>n \<in> set (notes_table db). note_id n \<noteq> i \<longrightarrow> n \<in> set (notes_table (updateNote E i u db)))
   \<and> (p_linkedNoteIds u = None \<longrightarrow> p_backlinkNoteIds u = None \<longrightarrow>
        map linkedNoteIds (notes_table (updateNote E i u db)) = map linkedNoteIds (notes_table db)
        \<and> map backlinkNoteIds (notes_table (updateNote E i u db))
            = map backlinkNoteIds (notes_table db))"
proof -
  from updateNote_notes [of E i u db] obtain p where
    t: "notes_table (updateNote E i u db) =
          map (\<lambda>n. if note_id n = i then spread n p else n) (notes_table db)"
    and pl: "p_linkedNoteIds p = p_linkedNoteIds u" and pb: "p_backlinkNoteIds p = p_backlinkNoteIds u"
    by blast
  have "\<forall>n \<in> set (notes_table db). note_id n \<noteq> i \<longrightarrow> n \<in> set (notes_table (updateNote E i u db))"
    unfolding t by force
  moreover have "map linkedNoteIds (notes_table (updateNote E i u db)) = map linkedNoteIds (notes_table db)"
    if "p_linkedNoteIds u = None"
    unfolding t using that pl by (simp add: spread_def)
  moreover have "map backlinkNoteIds (notes_table (updateNote E i u db)) = map backlinkNoteIds (notes_table db)"
    if "p_backlinkNoteIds u = None"
    unfolding t using that pb by (simp add: spread_def)
  ultimately show ?thesis by (simp add: updateNote_links)
qed

theorem updateNote_no_resolution_witness:
  "mkNote ''a'' ''A'' [] [] \<in> set (notes_table db_placeholder)
   \<and> mkNote ''a'' ''A'' [] []
       \<in> set (notes_table (updateNote env0 ''n'' (no_patch\<lparr>p_title := Some ''X''\<rparr>) db_placeholder))
   \<and> links_table (updateNote env0 ''n'' (no_patch\<lparr>p_title := Some ''X''\<rparr>) db_placeholder)
       = links_table db_placeholder
   \<and> map linkedNoteIds
        (notes_table (updateNote env0 ''n'' (no_patch\<lparr>p_title := Some ''X''\<rparr>) db_placeholder))
       = map linkedNoteIds (notes_table db_placeholder)"
proof -
  have m: "mkNote ''a'' ''A'' [] [] \<in> set (notes_table db_placeholder)" by code_simp
  have i: "note_id (mkNote ''a'' ''A'' [] []) \<noteq> ''n''" by code_simp
  have p: "p_linkedNoteIds (no_patch\<lparr>p_title := Some ''X''\<rparr>) = None"
    "p_backlinkNoteIds (no_patch\<lparr>p_title := Some ''X''\<rparr>) = None"
    by (simp_all add: no_patch_def)
  from updateNote_no_resolution [of env0 "''n''" "no_patch\<lparr>p_title := Some ''X''\<rparr>" db_placeholder]
    m i p show ?thesis by blast
qed

section \<open>Symmetry of the adjacency views\<close>

lemma spread_no_lists:
  "p_linkedNoteIds p = None \<Longrightarrow> p_backlinkNoteIds p = None \<Longrightarrow>
     note_id (spread n p) = note_id n \<and> linkedNoteIds (spread n p) = linkedNoteIds n
     \<and> backlinkNoteIds (spread n p) = backlinkNoteIds n"
  by (simp add: spread_def)

lemma updateNote_symmetric:
  assumes sym: "symmetric db"
    and nl: "p_linkedNoteIds u = None" and nb: "p_backlinkNoteIds u = None"
  shows "symmetric (updateNote E i u db)"
proof -
  from updateNote_notes [of E i u db] obtain p where
    t: "notes_table (updateNote E i u db) =
          map (\<lambda>n. if note_id n = i then spread n p else n) (notes_table db)"
    and pl: "p_linkedNoteIds p = p_linkedNoteIds u" and pb: "p_backlinkNoteIds p = p_backlinkNoteIds u"
    by blast
  from pl pb nl nb have f: "\<And>n. note_id (spread n p) = note_id n
      \<and> linkedNoteIds (spread n p) = linkedNoteIds n
      \<and> backlinkNoteIds (spread n p) = backlinkNoteIds n"
    by (simp add: spread_no_lists)
  define g where "g = (\<lambda>n. if note_id n = i then spread n p else n)"
  from f have gf: "\<And>n. note_id (g n) = note_id n" "\<And>n. linkedNoteIds (g n) = linkedNoteIds n"
    "\<And>n. backlinkNoteIds (g n) = backlinkNoteIds n"
    by (simp_all add: g_def)
  from t have "notes_table (updateNote E i u db) = map g (notes_table db)"
    by (simp add: g_def)
  with sym show ?thesis unfolding symmetric_def by (simp add: gf)
qed

lemma createNote_no_lists:
  assumes "createNote E data db = Inr (n, db')"
    and "p_linkedNoteIds data = None" and "p_backlinkNoteIds data = None"
  shows "linkedNoteIds n = [] \<and> backlinkNoteIds n = []"
  using assms
  by (auto simp: createNote_def Let_def spread_def createEmptyNote_def split: sum.splits if_splits)

lemma createNote_symmetric:
  assumes sym: "symmetric db" and run: "createNote E data db = Inr (n, db')"
    and nl: "p_linkedNoteIds data = None" and nb: "p_backlinkNoteIds data = None"
    and fresh: "\<forall>a \<in> set (notes_table db).
                  note_id n \<notin> set (linkedNoteIds a) \<and> note_id n \<notin> set (backlinkNoteIds a)"
  shows "symmetric db'"
proof -
  from createNote_Inr [OF run] have "set (notes_table db') = insert n (set (notes_table db))"
    by (simp add: set_insort_key)
  moreover from createNote_no_lists [OF run nl nb]
  have "linkedNoteIds n = []" "backlinkNoteIds n = []" by simp_all
  ultimately show ?thesis using sym fresh unfolding symmetric_def by auto
qed

text \<open>
  Claim C6, as stated, fails. The claim is about every operation, and updateNote stores
  the adjacency lists of its patch as they are: on a store whose views agree, an update
  of note c that carries the outgoing list [a] leaves c pointing to a while a has no
  incoming id.
\<close>

theorem symmetry_broken_by_adjacency_patch:
  "primary_keys db_linked \<and> symmetric db_linked
   \<and> \<not> symmetric (updateNote env0 ''c'' (no_patch\<lparr>p_linkedNoteIds := Some [''a'']\<rparr>) db_linked)"
  by code_simp

text \<open>
  Claim C6, amended. If the two adjacency views agree before the operation (for all notes
  a and b of the store, b is in the outgoing list of a exactly when a is in the incoming
  list of b), they agree after a content commit that settles and after a delete; after
  an update whose patch carries no adjacency lists; and after a create that settles,
  whose data carries no adjacency lists and whose new id is in no adjacency list of the
  store. The notes table has a primary key, so no two rows share an id.
\<close>

theorem symmetry_preserved:
  assumes "primary_keys db" and "symmetric db"
  shows "(\<forall>db'. updateNoteLinks E x c db = Inr db' \<longrightarrow> symmetric db')
         \<and> symmetric (deleteNote i db)
         \<and> (p_linkedNoteIds u = None \<longrightarrow> p_backlinkNoteIds u = None \<longrightarrow>
              symmetric (updateNote E j u db))
         \<and> (\<forall>n db'. createNote E data db = Inr (n, db') \<longrightarrow>
              p_linkedNoteIds data = None \<longrightarrow> p_backlinkNoteIds data = None \<longrightarrow>
              (\<forall>a \<in> set (notes_table db).
                  note_id n \<notin> set (linkedNoteIds a) \<and> note_id n \<notin> set (backlinkNoteIds a)) \<longrightarrow>
              symmetric db')"
proof (intro conjI allI impI)
  fix db' assume "updateNoteLinks E x c db = Inr db'"
  with assms show "symmetric db'" by (rule updateNoteLinks_symmetric)
next
  from assms show "symmetric (deleteNote i db)" by (rule deleteNote_symmetric)
next
  assume "p_linkedNoteIds u = None" and "p_backlinkNoteIds u = None"
  with assms(2) show "symmetric (updateNote E j u db)" by (rule updateNote_symmetric)
next
  fix n db'
  assume "createNote E data db = Inr (n, db')"
    and "p_linkedNoteIds data = None" and "p_backlinkNoteIds data = None"
    and "\<forall>a \<in> set (notes_table db).
            note_id n \<notin> set (linkedNoteIds a) \<and> note_id n \<notin> set (backlinkNoteIds a)"
  with assms(2) show "symmetric db'" by (rule createNote_symmetric)
qed

theorem symmetry_preserved_witness:
  "primary_keys db_linked \<and> symmetric db_linked
   \<and> \<not> isl (updateNoteLinks env0 ''a'' ''now see [[C]]'' db_linked)
   \<and> symmetric (projr (updateNoteLinks env0 ''a'' ''now see [[C]]'' db_linked))
   \<and> symmetric (deleteNote ''b'' db_linked)
   \<and> symmetric (updateNote env0 ''b'' (no_patch\<lparr>p_title := Some ''C''\<rparr>) db_linked)
   \<and> \<not> isl (createNote env0 (no_patch\<lparr>p_title := Some ''X''\<rparr>) db_linked)
   \<and> symmetric (snd (projr (createNote env0 (no_patch\<lparr>p_title := Some ''X''\<rparr>) db_linked)))"
proof -
  let ?run = "updateNoteLinks env0 ''a'' ''now see [[C]]'' db_linked"
  let ?data = "no_patch\<lparr>p_title := Some ''X''\<rparr>"
  let ?u = "no_patch\<lparr>p_title := Some ''C''\<rparr>"
  let ?cr = "createNote env0 ?data db_linked"
  have pk: "primary_keys db_linked" by code_simp
  have sym: "symmetric db_linked" by code_simp
  have ok: "\<not> isl ?run" by code_simp
  then have r: "?run = Inr (projr ?run)" by (cases ?run) simp_all
  have ok2: "\<not> isl ?cr" by code_simp
  then have r2: "?cr = Inr (fst (projr ?cr), snd (projr ?cr))" by (cases ?cr) simp_all
  have p: "p_linkedNoteIds ?data = None" "p_backlinkNoteIds ?data = None"
    "p_linkedNoteIds ?u = None" "p_backlinkNoteIds ?u = None"
    by (simp_all add: no_patch_def)
  have f: "\<forall>a \<in> set (notes_table db_linked).
             note_id (fst (projr ?cr)) \<notin> set (linkedNoteIds a)
             \<and> note_id (fst (projr ?cr)) \<notin> set (backlinkNoteIds a)"
    by code_simp
  from symmetry_preserved [OF pk sym, of env0 "''a''" "''now see [[C]]''" "''b''" ?u "''b''" ?data]
    r r2 p f pk sym ok ok2
  show ?thesis by blast
qed

end
